theory Spec2Isabelle
  imports Main
begin

section \<open>Host scraper: retry wrapper\<close>

text \<open>
  \<^verbatim>\<open>retry_on_failure(max_retries, delay)\<close> wraps a callable. The callable is modelled by
  the outcome of its successive invocations inside one call of the wrapper: \<open>func k\<close> is
  what the \<open>k\<close>-th invocation (counted from 0) does, \<open>Inl e\<close> when it raises \<open>e\<close> and
  \<open>Inr v\<close> when it returns \<open>v\<close>. The wrapper's effects are recorded as a trace: one
  \<open>Invoked\<close> per call of the callable and one \<open>Slept t\<close> per \<^verbatim>\<open>time.sleep(t)\<close>.
\<close>

datatype revent = Invoked | Slept int

datatype ('e, 'a) outcome = Raised 'e | Returned 'a | ReturnedNone

text \<open>
  The body of \<^verbatim>\<open>for attempt in range(max_retries)\<close>, over the attempts still to run.
  When the range is exhausted without a return the Python function falls off its end
  and returns \<^verbatim>\<open>None\<close>. \<open>calls\<close> counts the invocations made so far.
\<close>

fun retry_loop ::
  "nat \<Rightarrow> int \<Rightarrow> (nat \<Rightarrow> 'e + 'a) \<Rightarrow> nat list \<Rightarrow> nat \<Rightarrow> revent list
     \<Rightarrow> ('e, 'a) outcome \<times> revent list" where
  "retry_loop max_retries delay func [] calls tr = (ReturnedNone, tr)"
| "retry_loop max_retries delay func (attempt # rest) calls tr =
     (case func calls of
        Inr v \<Rightarrow> (Returned v, tr @ [Invoked])
      | Inl e \<Rightarrow>
          if Suc attempt = max_retries then (Raised e, tr @ [Invoked])
          else retry_loop max_retries delay func rest (Suc calls)
                 (tr @ [Invoked, Slept (delay * 2 ^ attempt)]))"

definition retry_on_failure ::
  "nat \<Rightarrow> int \<Rightarrow> (nat \<Rightarrow> 'e + 'a) \<Rightarrow> ('e, 'a) outcome \<times> revent list" where
  "retry_on_failure max_retries delay func =
     retry_loop max_retries delay func [0..<max_retries] 0 []"

definition invocations :: "revent list \<Rightarrow> nat" where
  "invocations tr = length (filter (\<lambda>ev. ev = Invoked) tr)"

fun sleeps :: "revent list \<Rightarrow> int list" where
  "sleeps [] = []"
| "sleeps (Invoked # tr) = sleeps tr"
| "sleeps (Slept t # tr) = t # sleeps tr"


section \<open>Strings and regular expressions\<close>

text \<open>
  A Python \<^verbatim>\<open>str\<close> is modelled as a HOL \<open>string\<close>, each \<open>char\<close> standing for the code
  point of the same number (0 to 255). On these code points \<^verbatim>\<open>\d\<close> matches the ten ASCII
  digits only, and \<^verbatim>\<open>str.isspace\<close> and \<^verbatim>\<open>\s\<close> hold of the characters listed in
  \<open>whitespace_chars\<close>.
\<close>

datatype exn = ValueError | AttributeError | TypeError | KeyError | OtherError string

definition whitespace_chars :: string where
  "whitespace_chars =
     [CHR 0x09, CHR 0x0A, CHR 0x0B, CHR 0x0C, CHR 0x0D,
      CHR 0x1C, CHR 0x1D, CHR 0x1E, CHR 0x1F, CHR 0x20, CHR 0x85, CHR 0xA0]"

definition py_isspace :: "char \<Rightarrow> bool" where
  "py_isspace c = (c \<in> set whitespace_chars)"

definition is_digit :: "char \<Rightarrow> bool" where
  "is_digit c = (c \<in> set ''0123456789'')"

definition py_lstrip :: "string \<Rightarrow> string" where
  "py_lstrip s = dropWhile py_isspace s"

definition py_rstrip :: "string \<Rightarrow> string" where
  "py_rstrip s = rev (dropWhile py_isspace (rev s))"

definition py_strip :: "string \<Rightarrow> string" where
  "py_strip s = py_rstrip (py_lstrip s)"

definition ascii_lower :: "char \<Rightarrow> char" where
  "ascii_lower c =
     (case map_of (zip ''ABCDEFGHIJKLMNOPQRSTUVWXYZ'' ''abcdefghijklmnopqrstuvwxyz'') c of
        Some l \<Rightarrow> l | None \<Rightarrow> c)"

text \<open>
  The fragment of Python's \<^verbatim>\<open>re\<close> syntax that the program uses: literals, character
  classes, greedy repetition of a class (\<^verbatim>\<open>*\<close>, \<^verbatim>\<open>+\<close>, \<^verbatim>\<open>{m,n}\<close>), concatenation,
  ordered alternation, the greedy option \<^verbatim>\<open>?\<close> and one capturing group.
\<close>

datatype cclass =
    CChar char
  | CDigit
  | CSpace
  | COneOf "cclass list"
  | CNoneOf "cclass list"

datatype regex =
    Lit string
  | Cls cclass
  | Rep cclass nat "nat option"
  | Cat regex regex
  | Alt regex regex
  | Opt regex
  | Grp regex

fun cmatch :: "bool \<Rightarrow> cclass \<Rightarrow> char \<Rightarrow> bool" where
  "cmatch ic (CChar c) x = (x = c \<or> (ic \<and> ascii_lower x = ascii_lower c))"
| "cmatch ic CDigit x = is_digit x"
| "cmatch ic CSpace x = py_isspace x"
| "cmatch ic (COneOf cs) x = list_ex (\<lambda>c. cmatch ic c x) cs"
| "cmatch ic (CNoneOf cs) x = (\<not> list_ex (\<lambda>c. cmatch ic c x) cs)"

fun lit_match :: "bool \<Rightarrow> string \<Rightarrow> string \<Rightarrow> string option" where
  "lit_match ic [] s = Some s"
| "lit_match ic (c # cs) [] = None"
| "lit_match ic (c # cs) (x # xs) =
     (if cmatch ic (CChar c) x then lit_match ic cs xs else None)"

text \<open>
  A backtracking matcher. \<open>rmatch ic r (s, g)\<close> lists, in the order in which the
  backtracking engine tries them, the ways \<open>r\<close> can match a prefix of \<open>s\<close>: each is the
  rest of the text after the match, with the text captured by the group (\<open>g\<close> before the
  group has matched). \<open>ic\<close> is the flag \<^verbatim>\<open>re.IGNORECASE\<close>.
\<close>

fun rmatch :: "bool \<Rightarrow> regex \<Rightarrow> string \<times> string option \<Rightarrow> (string \<times> string option) list" where
  "rmatch ic (Lit l) (s, g) = (case lit_match ic l s of None \<Rightarrow> [] | Some s' \<Rightarrow> [(s', g)])"
| "rmatch ic (Cls k) (s, g) =
     (case s of [] \<Rightarrow> [] | x # xs \<Rightarrow> if cmatch ic k x then [(xs, g)] else [])"
| "rmatch ic (Rep k lo hi) (s, g) =
     (let run = length (takeWhile (cmatch ic k) s);
          top = (case hi of None \<Rightarrow> run | Some h \<Rightarrow> min h run)
      in map (\<lambda>n. (drop n s, g)) (rev [lo..<Suc top]))"
| "rmatch ic (Cat a b) st = concat (map (rmatch ic b) (rmatch ic a st))"
| "rmatch ic (Alt a b) st = rmatch ic a st @ rmatch ic b st"
| "rmatch ic (Opt a) st = rmatch ic a st @ [st]"
| "rmatch ic (Grp a) (s, g) =
     map (\<lambda>(s', _). (s', Some (take (length s - length s') s))) (rmatch ic a (s, g))"

text \<open>\<^verbatim>\<open>re.fullmatch\<close>: the first way to match that uses up the whole text.\<close>

definition re_fullmatch :: "bool \<Rightarrow> regex \<Rightarrow> string \<Rightarrow> string option option" where
  "re_fullmatch ic r s =
     (case filter (\<lambda>(s', g). s' = []) (rmatch ic r (s, None)) of
        [] \<Rightarrow> None
      | (s', g) # _ \<Rightarrow> Some g)"

text \<open>\<^verbatim>\<open>re.match\<close>: the first way to match at the start of the text. The result is
  the group's text (\<open>None\<close> inside when the group took no part).\<close>

definition re_match :: "bool \<Rightarrow> regex \<Rightarrow> string \<Rightarrow> string option option" where
  "re_match ic r s =
     (case rmatch ic r (s, None) of [] \<Rightarrow> None | (s', g) # _ \<Rightarrow> Some g)"

text \<open>\<^verbatim>\<open>re.search\<close>: the first match at the leftmost position that has one.\<close>

fun re_search :: "bool \<Rightarrow> regex \<Rightarrow> string \<Rightarrow> string option option" where
  "re_search ic r [] = re_match ic r []"
| "re_search ic r (x # xs) =
     (case re_match ic r (x # xs) of
        None \<Rightarrow> re_search ic r xs
      | Some g \<Rightarrow> Some g)"

text \<open>\<^verbatim>\<open>re.sub\<close> with a constant replacement, for a pattern that matches no empty text:
  each leftmost match is replaced and the scan goes on after it.\<close>

function re_sub :: "bool \<Rightarrow> regex \<Rightarrow> string \<Rightarrow> string \<Rightarrow> string" where
  "re_sub ic r rep [] = []"
| "re_sub ic r rep (x # xs) =
     (case rmatch ic r (x # xs, None) of
        [] \<Rightarrow> x # re_sub ic r rep xs
      | (s', g) # _ \<Rightarrow>
          if length s' < length (x # xs) then rep @ re_sub ic r rep s'
          else x # re_sub ic r rep xs)"
  by pat_completeness auto
termination
  by (relation "measure (\<lambda>(ic, r, rep, s). length s)") auto

section \<open>Python values\<close>

text \<open>
  The payloads that the marketplace client returns are JSON-like Python values. A float
  is kept as its \<^verbatim>\<open>repr\<close> text, which determines it; a dict is an association list
  with string keys, looked up from the front.
\<close>

datatype pyval =
    PNone
  | PBool bool
  | PInt int
  | PFloat string
  | PStr string
  | PList "pyval list"
  | PDict "(string \<times> pyval) list"

text \<open>Truthiness, as \<^verbatim>\<open>if x\<close>, \<^verbatim>\<open>not x\<close> and \<^verbatim>\<open>x or y\<close> test it.\<close>

fun py_truthy :: "pyval \<Rightarrow> bool" where
  "py_truthy PNone = False"
| "py_truthy (PBool b) = b"
| "py_truthy (PInt i) = (i \<noteq> 0)"
| "py_truthy (PFloat r) = (r \<noteq> ''0.0'' \<and> r \<noteq> ''-0.0'')"
| "py_truthy (PStr s) = (s \<noteq> [])"
| "py_truthy (PList xs) = (xs \<noteq> [])"
| "py_truthy (PDict kvs) = (kvs \<noteq> [])"

fun is_dict :: "pyval \<Rightarrow> bool" where
  "is_dict (PDict kvs) = True"
| "is_dict v = False"

text \<open>\<^verbatim>\<open>x.get(key, default)\<close>: only a dict has the method; on any other value the
  attribute lookup raises \<^verbatim>\<open>AttributeError\<close>.\<close>

fun py_get :: "pyval \<Rightarrow> string \<Rightarrow> pyval \<Rightarrow> exn + pyval" where
  "py_get (PDict kvs) key dflt = Inr (case map_of kvs key of Some v \<Rightarrow> v | None \<Rightarrow> dflt)"
| "py_get v key dflt = Inl AttributeError"

text \<open>\<^verbatim>\<open>for it in x\<close>: a list gives its items, a dict its keys, a string its
  characters; the other values are not iterable.\<close>

fun py_iter :: "pyval \<Rightarrow> exn + pyval list" where
  "py_iter (PList xs) = Inr xs"
| "py_iter (PDict kvs) = Inr (map (\<lambda>kv. PStr (fst kv)) kvs)"
| "py_iter (PStr s) = Inr (map (\<lambda>c. PStr [c]) s)"
| "py_iter v = Inl TypeError"

fun py_len :: "pyval \<Rightarrow> exn + nat" where
  "py_len (PList xs) = Inr (length xs)"
| "py_len (PDict kvs) = Inr (length kvs)"
| "py_len (PStr s) = Inr (length s)"
| "py_len v = Inl TypeError"

text \<open>\<^verbatim>\<open>str\<close> and \<^verbatim>\<open>repr\<close>. Decimal numerals first.\<close>

fun digits_of_nat :: "nat \<Rightarrow> string" where
  "digits_of_nat n =
     (if n < 10 then [''0123456789'' ! n]
      else digits_of_nat (n div 10) @ [''0123456789'' ! (n mod 10)])"

definition str_of_int :: "int \<Rightarrow> string" where
  "str_of_int i = (if i < 0 then CHR ''-'' # digits_of_nat (nat (- i)) else digits_of_nat (nat i))"

definition hex2 :: "nat \<Rightarrow> string" where
  "hex2 n = [''0123456789abcdef'' ! (n div 16), ''0123456789abcdef'' ! (n mod 16)]"

text \<open>The \<^verbatim>\<open>repr\<close> of a string: single quotes unless the text has a single quote and
  no double quote; the quote and the backslash escaped; tab, line feed and carriage
  return by letter; the other code points that are not printable as \<^verbatim>\<open>\xhh\<close>.\<close>

definition printable :: "char \<Rightarrow> bool" where
  "printable c =
     (let n = (of_char c :: nat)
      in (32 \<le> n \<and> n < 127) \<or> (161 \<le> n \<and> n \<noteq> 173))"

definition repr_char :: "char \<Rightarrow> char \<Rightarrow> string" where
  "repr_char quote c =
     (if c = quote \<or> c = CHR 0x5C then [CHR 0x5C, c]
      else if c = CHR 0x09 then [CHR 0x5C, CHR ''t'']
      else if c = CHR 0x0A then [CHR 0x5C, CHR ''n'']
      else if c = CHR 0x0D then [CHR 0x5C, CHR ''r'']
      else if printable c then [c]
      else [CHR 0x5C, CHR ''x''] @ hex2 (of_char c))"

definition repr_str :: "string \<Rightarrow> string" where
  "repr_str s =
     (let quote = (if CHR 0x27 \<in> set s \<and> CHR 0x22 \<notin> set s then CHR 0x22 else CHR 0x27)
      in quote # concat (map (repr_char quote) s) @ [quote])"

fun join :: "string \<Rightarrow> string list \<Rightarrow> string" where
  "join sep [] = []"
| "join sep [x] = x"
| "join sep (x # y # ys) = x @ sep @ join sep (y # ys)"

fun py_repr :: "pyval \<Rightarrow> string" where
  "py_repr PNone = ''None''"
| "py_repr (PBool b) = (if b then ''True'' else ''False'')"
| "py_repr (PInt i) = str_of_int i"
| "py_repr (PFloat r) = r"
| "py_repr (PStr s) = repr_str s"
| "py_repr (PList xs) = ''['' @ join '', '' (map py_repr xs) @ '']''"
| "py_repr (PDict kvs) =
     ''{'' @ join '', '' (map (\<lambda>kv. repr_str (fst kv) @ '': '' @ py_repr (snd kv)) kvs) @ ''}''"

fun py_str :: "pyval \<Rightarrow> string" where
  "py_str (PStr s) = s"
| "py_str v = py_repr v"

section \<open>Resolving the host identifier\<close>

text \<open>
  \<^verbatim>\<open>urllib.parse.urlparse\<close> belongs to the Python library, not to the program, and
  what it accepts has changed between releases. The resolver therefore takes it as a
  parameter \<open>urlparse_path\<close>: the \<^verbatim>\<open>path\<close> component of the parse, or the exception
  raised. \<open>urlparse_path_model\<close> below follows CPython's \<^verbatim>\<open>urlsplit\<close> and
  \<^verbatim>\<open>urlparse\<close> (without the validation of a bracketed IPv6 host) and serves to evaluate
  the resolver on concrete inputs.
\<close>

definition c0_control_or_space :: "char \<Rightarrow> bool" where
  "c0_control_or_space c = ((of_char c :: nat) \<le> 32)"

definition scheme_char :: "char \<Rightarrow> bool" where
  "scheme_char c =
     (c \<in> set ''abcdefghijklmnopqrstuvwxyzABCDEFGHIJKLMNOPQRSTUVWXYZ0123456789+-.'')"

definition ascii_alpha :: "char \<Rightarrow> bool" where
  "ascii_alpha c = (c \<in> set ''abcdefghijklmnopqrstuvwxyzABCDEFGHIJKLMNOPQRSTUVWXYZ'')"

definition uses_params :: "string list" where
  "uses_params = [[], ''ftp'', ''hdl'', ''prospero'', ''http'', ''imap'', ''https'',
     ''shttp'', ''rtsp'', ''rtspu'', ''sip'', ''sips'', ''mms'', ''sftp'', ''tel'']"

definition split_scheme :: "string \<Rightarrow> string \<times> string" where
  "split_scheme url =
     (let pre = takeWhile (\<lambda>c. c \<noteq> CHR '':'') url
      in if CHR '':'' \<in> set url \<and> pre \<noteq> [] \<and> ascii_alpha (hd pre) \<and> list_all scheme_char pre
         then (map ascii_lower pre, drop (Suc (length pre)) url)
         else ([], url))"

definition split_netloc :: "string \<Rightarrow> exn + string" where
  "split_netloc url =
     (if take 2 url = ''//'' then
        (let netloc = takeWhile (\<lambda>c. c \<notin> set ''/?#'') (drop 2 url);
             rest = dropWhile (\<lambda>c. c \<notin> set ''/?#'') (drop 2 url)
         in if (CHR ''['' \<in> set netloc) \<noteq> (CHR '']'' \<in> set netloc)
            then Inl ValueError else Inr rest)
      else Inr url)"

definition split_params :: "string \<Rightarrow> string" where
  "split_params url =
     rev (dropWhile (\<lambda>c. c \<noteq> CHR ''/'') (rev url))
       @ takeWhile (\<lambda>c. c \<noteq> CHR '';'') (rev (takeWhile (\<lambda>c. c \<noteq> CHR ''/'') (rev url)))"

definition urlparse_path_model :: "string \<Rightarrow> exn + string" where
  "urlparse_path_model s =
     (let url = filter (\<lambda>c. c \<notin> set [CHR 0x09, CHR 0x0D, CHR 0x0A])
                  (dropWhile c0_control_or_space s);
          (scheme, url) = split_scheme url
      in case split_netloc url of
           Inl e \<Rightarrow> Inl e
         | Inr url \<Rightarrow>
             (let url = takeWhile (\<lambda>c. c \<noteq> CHR ''#'') url;
                  url = takeWhile (\<lambda>c. c \<noteq> CHR ''?'') url
              in if scheme \<in> set uses_params \<and> CHR '';'' \<in> set url
                 then Inr (split_params url) else Inr url))"

text \<open>The two patterns of the resolver: \<^verbatim>\<open>\d{5,25}\<close> and
  \<^verbatim>\<open>/users/(?:show|profile)/(\d+)\<close>.\<close>

definition host_id_pattern :: regex where
  "host_id_pattern = Rep CDigit 5 (Some 25)"

definition users_path_pattern :: regex where
  "users_path_pattern =
     Cat (Lit ''/users/'')
       (Cat (Alt (Lit ''show'') (Lit ''profile''))
          (Cat (Lit ''/'') (Grp (Rep CDigit 1 None))))"

text \<open>
  \<^verbatim>\<open>parse_host_id_from_url\<close>. The \<^verbatim>\<open>try\<close> block turns every exception of the URL
  branch into the empty string, so the result is a string in every case. The group of
  the second pattern takes part in every match, so \<^verbatim>\<open>m.group(1)\<close> is a string.
\<close>

definition parse_host_id_from_url :: "(string \<Rightarrow> exn + string) \<Rightarrow> string \<Rightarrow> string" where
  "parse_host_id_from_url urlparse_path host_url =
     (if host_url = [] then []
      else
        (let s = py_strip host_url
         in if re_fullmatch False host_id_pattern s \<noteq> None then s
            else
              (case urlparse_path s of
                 Inl e \<Rightarrow> []
               | Inr path \<Rightarrow>
                   (case re_search False users_path_pattern path of
                      None \<Rightarrow> []
                    | Some None \<Rightarrow> []
                    | Some (Some digits) \<Rightarrow> digits))))"

text \<open>
  The shapes of input that the resolver distinguishes, stated on the text itself:
  a bare identifier is a run of 5 to 25 digits; an occurrence of the users path starts
  with \<^verbatim>\<open>/users/show/\<close> or \<^verbatim>\<open>/users/profile/\<close> followed by a digit.
  \<open>tails s\<close> lists the suffixes of \<open>s\<close> from the longest, one per starting position.
\<close>

definition is_bare_id :: "string \<Rightarrow> bool" where
  "is_bare_id t = (5 \<le> length t \<and> length t \<le> 25 \<and> list_all is_digit t)"

definition users_occurrence :: "string \<Rightarrow> bool" where
  "users_occurrence u =
     list_ex (\<lambda>p. take (length p) u = p
                  \<and> (case drop (length p) u of [] \<Rightarrow> False | d # q \<Rightarrow> is_digit d))
       [''/users/show/'', ''/users/profile/'']"

fun tails :: "'a list \<Rightarrow> 'a list list" where
  "tails [] = [[]]"
| "tails (x # xs) = (x # xs) # tails xs"

text \<open>The shape that the data model promises of a resolved identifier: empty (the
  resolution failed), or 5 to 25 decimal digits.\<close>

definition resolver_output_ok :: "string \<Rightarrow> bool" where
  "resolver_output_ok r = (r = [] \<or> (list_all is_digit r \<and> 5 \<le> length r \<and> length r \<le> 25))"

section \<open>The world outside the program\<close>

text \<open>
  What the program calls and does not define: the URL parser and the date parser of the
  Python library, the clock, and the marketplace client \<^verbatim>\<open>pyairbnb\<close>. Each call
  returns a value or raises (\<open>Inl\<close>). The detail fetch is the one call that the program
  retries, so its outcome may depend on how many times the same room has been asked for
  before; the other calls answer by their arguments.
\<close>

record externals =
  lib_urlparse_path :: "string \<Rightarrow> exn + string"
  lib_fromisoformat_year :: "string \<Rightarrow> exn + int"
  clock_current_year :: int
  api_get_api_key :: "exn + string"
  api_get_listings_from_user :: "string \<Rightarrow> string \<Rightarrow> exn + pyval"
  api_get_details :: "string \<Rightarrow> nat \<Rightarrow> exn + pyval"
  api_get_host_details :: "string \<Rightarrow> string \<Rightarrow> exn + pyval"

text \<open>
  The effects of a run, in order: the requests sent to the marketplace and the two
  kinds of \<^verbatim>\<open>time.sleep\<close>, the backoff of the retry wrapper and the pause of
  \<^verbatim>\<open>DELAY_BETWEEN_DETAILS\<close> at the end of a loop iteration.
\<close>

datatype event =
    ApiKeyRequest
  | UserListingsRequest string
  | DetailsRequest string
  | HostDetailsRequest string
  | BackoffSleep int
  | DelaySleep

text \<open>A row of the output table and a host profile are Python dicts with fixed string
  keys: association lists in the order of their keys.\<close>

type_synonym row = "(string \<times> pyval) list"

text \<open>
  The state that a run reads and writes: the global \<^verbatim>\<open>API_KEY\<close> (\<open>None\<close> until the
  first request for it), the text of \<^verbatim>\<open>processed_ids.txt\<close> and the rows of
  \<^verbatim>\<open>host_listings.csv\<close> under its fixed header (each \<open>None\<close> while the file does not
  exist), and the effects so far.
\<close>

record world =
  api_key_cache :: "string option"
  processed_ids_file :: "string option"
  csv_file :: "row list option"
  trace :: "event list"

definition emit :: "event \<Rightarrow> world \<Rightarrow> world" where
  "emit ev w = w\<lparr>trace := trace w @ [ev]\<rparr>"

definition fieldnames :: "string list" where
  "fieldnames = [''room_id'', ''listing_url'', ''listing_title'', ''license_code'',
     ''host_id'', ''host_name'', ''host_profile_url'', ''host_rating'',
     ''host_reviews_count'', ''host_joined_year'', ''host_years_active'',
     ''host_total_listings_in_dubai'']"

section \<open>Credentials, progress log, output table\<close>

definition get_api_credentials :: "externals \<Rightarrow> world \<Rightarrow> string \<times> world" where
  "get_api_credentials E w =
     (case api_key_cache w of
        Some k \<Rightarrow> (k, w)
      | None \<Rightarrow>
          (case api_get_api_key E of
             Inr k \<Rightarrow> (k, emit ApiKeyRequest (w\<lparr>api_key_cache := Some k\<rparr>))
           | Inl e \<Rightarrow> ([], emit ApiKeyRequest (w\<lparr>api_key_cache := Some []\<rparr>))))"

text \<open>Reading a text file line by line: a line ends at a line feed or a carriage
  return (universal newlines); the last line may lack its end.\<close>

fun file_lines :: "string \<Rightarrow> string \<Rightarrow> string list" where
  "file_lines cur [] = (if cur = [] then [] else [cur])"
| "file_lines cur (c # cs) =
     (if c = CHR 0x0A \<or> c = CHR 0x0D then cur # file_lines [] cs
      else file_lines (cur @ [c]) cs)"

definition load_processed_ids :: "world \<Rightarrow> string set" where
  "load_processed_ids w =
     (case processed_ids_file w of
        None \<Rightarrow> {}
      | Some text \<Rightarrow> set (filter (\<lambda>l. l \<noteq> []) (map py_strip (file_lines [] text))))"

definition save_processed_id :: "string \<Rightarrow> world \<Rightarrow> world" where
  "save_processed_id room_id w =
     w\<lparr>processed_ids_file :=
         Some ((case processed_ids_file w of None \<Rightarrow> [] | Some text \<Rightarrow> text)
               @ room_id @ [CHR 0x0A])\<rparr>"

definition write_csv :: "row list \<Rightarrow> world \<Rightarrow> world" where
  "write_csv records w = w\<lparr>csv_file := Some records\<rparr>"

section \<open>License code\<close>

text \<open>\<^verbatim>\<open>str.split()\<close> without arguments: the maximal runs of characters that are not
  whitespace.\<close>

fun split_words :: "string \<Rightarrow> string \<Rightarrow> string list" where
  "split_words cur [] = (if cur = [] then [] else [cur])"
| "split_words cur (c # cs) =
     (if py_isspace c then (if cur = [] then split_words [] cs else cur # split_words [] cs)
      else split_words (cur @ [c]) cs)"

definition py_split :: "string \<Rightarrow> string list" where
  "py_split s = split_words [] s"

text \<open>The tag pattern \<^verbatim>\<open><[^>]+>\<close>, the four keyword alternatives, and the whole
  pattern \<^verbatim>\<open>(?:k1|k2|k3|k4)[:\s]*([^,\n]+)\<close>.\<close>

definition tag_pattern :: regex where
  "tag_pattern = Cat (Lit ''<'') (Cat (Rep (CNoneOf [CChar CHR ''>'']) 1 None) (Lit ''>''))"

definition keywords_list :: "regex list" where
  "keywords_list =
     [Cat (Lit ''Registration'') (Cat (Rep CSpace 1 None) (Cat (Lit ''Detail'') (Opt (Lit ''s'')))),
      Cat (Lit ''Registration'') (Cat (Rep CSpace 1 None)
        (Alt (Lit ''Number'') (Alt (Cat (Lit ''No'') (Opt (Lit ''.''))) (Lit ''Code'')))),
      Cat (Lit ''License'') (Cat (Rep CSpace 1 None)
        (Alt (Lit ''Number'') (Alt (Cat (Lit ''No'') (Opt (Lit ''.''))) (Lit ''Code'')))),
      Cat (Lit ''Permit'') (Cat (Rep CSpace 1 None)
        (Alt (Lit ''Number'') (Cat (Lit ''No'') (Opt (Lit ''.'')))))]"

definition keyword_pattern :: regex where
  "keyword_pattern = foldr Alt (butlast keywords_list) (last keywords_list)"

definition separator_class :: cclass where
  "separator_class = COneOf [CChar CHR '':'', CSpace]"

definition code_class :: cclass where
  "code_class = CNoneOf [CChar CHR '','', CChar CHR 0x0A]"

definition license_pattern :: regex where
  "license_pattern =
     Cat keyword_pattern (Cat (Rep separator_class 0 None) (Grp (Rep code_class 1 None)))"

definition extract_license_code :: "pyval \<Rightarrow> string" where
  "extract_license_code text =
     (if \<not> py_truthy text then []
      else
        (let text_str = py_str text;
             text_clean = re_sub False tag_pattern '' '' text_str
         in case re_search True license_pattern text_clean of
              Some (Some code) \<Rightarrow> join '' '' (py_split (py_strip code))
            | _ \<Rightarrow> []))"

section \<open>Host profile and listing record\<close>

definition empty_profile :: row where
  "empty_profile =
     [(''host_name'', PStr []), (''host_rating'', PStr []), (''host_reviews_count'', PStr []),
      (''host_joined_year'', PStr []), (''host_years_active'', PStr []),
      (''host_total_listings'', PInt 0)]"

definition set_field :: "string \<Rightarrow> pyval \<Rightarrow> row \<Rightarrow> row" where
  "set_field k v r = map (\<lambda>kv. if fst kv = k then (k, v) else kv) r"

text \<open>\<^verbatim>\<open>d[key]\<close> on a dict: the value, or \<^verbatim>\<open>KeyError\<close>.\<close>

definition py_item :: "row \<Rightarrow> string \<Rightarrow> exn + pyval" where
  "py_item r k = (case map_of r k of Some v \<Rightarrow> Inr v | None \<Rightarrow> Inl KeyError)"

definition replace_Z :: "string \<Rightarrow> string" where
  "replace_Z s = concat (map (\<lambda>c. if c = CHR ''Z'' then ''+00:00'' else [c]) s)"

text \<open>
  The part of \<^verbatim>\<open>fetch_host_profile_fields\<close> that reads the host-details response.
  Each step may raise; the local variables assigned before that keep their values, so
  the result is the profile so far together with whether an exception is on its way to
  the outer \<^verbatim>\<open>except\<close>.
\<close>

definition rating_of_data :: "pyval \<Rightarrow> exn + pyval" where
  "rating_of_data data =
     (case py_get data ''node'' (PDict []) of
        Inl e \<Rightarrow> Inl e
      | Inr node \<Rightarrow>
          (case py_get node ''hostRatingStats'' (PDict []) of
             Inl e \<Rightarrow> Inl e
           | Inr host_rating_stats \<Rightarrow> py_get host_rating_stats ''ratingAverage'' (PStr [])))"

definition user_profile_of_data :: "pyval \<Rightarrow> exn + pyval" where
  "user_profile_of_data data =
     (case py_get data ''presentation'' (PDict []) of
        Inl e \<Rightarrow> Inl e
      | Inr presentation \<Rightarrow>
          (case py_get presentation ''userProfileContainer'' (PDict []) of
             Inl e \<Rightarrow> Inl e
           | Inr user_profile_container \<Rightarrow> py_get user_profile_container ''userProfile'' PNone))"

definition name_of_profile :: "pyval \<Rightarrow> exn + pyval" where
  "name_of_profile user_profile =
     (case py_get user_profile ''smartName'' (PStr []) of
        Inl e \<Rightarrow> Inl e
      | Inr smart \<Rightarrow>
          if py_truthy smart then Inr smart
          else py_get user_profile ''displayFirstName'' (PStr []))"

definition reviews_count_of_profile :: "pyval \<Rightarrow> exn + pyval" where
  "reviews_count_of_profile user_profile =
     (case py_get user_profile ''reviewsReceivedFromGuests'' (PDict []) of
        Inl e \<Rightarrow> Inl e
      | Inr reviews_data \<Rightarrow> py_get reviews_data ''count'' (PStr []))"

definition joined_fields :: "externals \<Rightarrow> pyval \<Rightarrow> row \<Rightarrow> row" where
  "joined_fields E created_at f =
     (if \<not> py_truthy created_at then f
      else
        (case created_at of
           PStr s \<Rightarrow>
             (case lib_fromisoformat_year E (replace_Z s) of
                Inl e \<Rightarrow> f
              | Inr year \<Rightarrow>
                  set_field ''host_years_active'' (PInt (clock_current_year E - year))
                    (set_field ''host_joined_year'' (PInt year) f))
         | _ \<Rightarrow> f))"

definition profile_of_response :: "externals \<Rightarrow> pyval \<Rightarrow> row \<Rightarrow> row \<times> bool" where
  "profile_of_response E response f =
     (case py_get response ''data'' (PDict []) of
        Inl e \<Rightarrow> (f, True)
      | Inr data \<Rightarrow>
     (case rating_of_data data of
        Inl e \<Rightarrow> (f, True)
      | Inr host_rating \<Rightarrow>
     (let f = set_field ''host_rating'' host_rating f
      in case user_profile_of_data data of
        Inl e \<Rightarrow> (f, True)
      | Inr user_profile \<Rightarrow>
     (if \<not> py_truthy user_profile then (f, False)
      else
     (case name_of_profile user_profile of
        Inl e \<Rightarrow> (f, True)
      | Inr host_name \<Rightarrow>
     (let f = set_field ''host_name'' host_name f
      in case reviews_count_of_profile user_profile of
        Inl e \<Rightarrow> (f, True)
      | Inr host_reviews_count \<Rightarrow>
     (let f = set_field ''host_reviews_count'' host_reviews_count f
      in case py_get user_profile ''createdAt'' (PStr []) of
        Inl e \<Rightarrow> (f, True)
      | Inr created_at \<Rightarrow> (joined_fields E created_at f, False))))))))"

definition has_key :: "pyval \<Rightarrow> string \<Rightarrow> bool" where
  "has_key v k = (case v of PDict kvs \<Rightarrow> map_of kvs k \<noteq> None | _ \<Rightarrow> False)"

definition total_listings :: "exn + pyval \<Rightarrow> int" where
  "total_listings host_listings =
     (case host_listings of
        Inl e \<Rightarrow> 0
      | Inr v \<Rightarrow>
          if py_truthy v then (case py_len v of Inl e \<Rightarrow> 0 | Inr n \<Rightarrow> int n) else 0)"

definition fetch_host_profile_fields ::
  "externals \<Rightarrow> string \<Rightarrow> (string \<rightharpoonup> row) \<Rightarrow> world \<Rightarrow> row \<times> (string \<rightharpoonup> row) \<times> world" where
  "fetch_host_profile_fields E host_id host_cache w =
     (if host_id = [] then (empty_profile, host_cache, w)
      else
        (case host_cache host_id of
           Some f \<Rightarrow> (f, host_cache, w)
         | None \<Rightarrow>
             (let (api_key, w) = get_api_credentials E w;
                  w = emit (HostDetailsRequest host_id) w;
                  (f, w) =
                    (case api_get_host_details E api_key host_id of
                       Inl e \<Rightarrow> (empty_profile, w)
                     | Inr response \<Rightarrow>
                         (let (f, raised) =
                                (if py_truthy response \<and> is_dict response
                                    \<and> \<not> has_key response ''errors''
                                 then profile_of_response E response empty_profile
                                 else (empty_profile, False))
                          in if raised then (f, w)
                             else
                               (set_field ''host_total_listings''
                                  (PInt (total_listings (api_get_listings_from_user E host_id api_key))) f,
                                emit (UserListingsRequest host_id) w)))
              in (f, host_cache(host_id \<mapsto> f), w))))"

text \<open>The six subscripts \<^verbatim>\<open>host_fields[...]\<close> of the record: the values in the order
  in which the record reads them, or \<^verbatim>\<open>KeyError\<close>.\<close>

definition host_field_values :: "row \<Rightarrow> exn + pyval list" where
  "host_field_values f =
     (case those (map (map_of f)
             [''host_name'', ''host_rating'', ''host_reviews_count'', ''host_joined_year'',
              ''host_years_active'', ''host_total_listings'']) of
        None \<Rightarrow> Inl KeyError
      | Some vs \<Rightarrow> Inr vs)"

definition listing_row :: "string \<Rightarrow> pyval \<Rightarrow> string \<Rightarrow> string \<Rightarrow> pyval list \<Rightarrow> exn + row" where
  "listing_row room_id listing_title license_code host_id vs =
     (case vs of
        [host_name, host_rating, host_reviews_count, host_joined_year, host_years_active,
         host_total_listings] \<Rightarrow>
          Inr [(''room_id'', PStr room_id),
               (''listing_url'', PStr (''https://www.airbnb.com/rooms/'' @ room_id)),
               (''listing_title'', listing_title),
               (''license_code'', PStr license_code),
               (''host_id'', PStr host_id),
               (''host_name'', host_name),
               (''host_profile_url'',
                  PStr (if host_id \<noteq> [] then ''https://www.airbnb.com/users/show/'' @ host_id
                        else [])),
               (''host_rating'', host_rating),
               (''host_reviews_count'', host_reviews_count),
               (''host_joined_year'', host_joined_year),
               (''host_years_active'', host_years_active),
               (''host_total_listings_in_dubai'', host_total_listings)]
      | _ \<Rightarrow> Inl KeyError)"

text \<open>The host identifier of a detail payload: \<^verbatim>\<open>str(host_data.get("id", ""))\<close> when
  the \<^verbatim>\<open>host\<close> entry is a dict, the empty string otherwise.\<close>

definition host_id_of :: "pyval \<Rightarrow> string" where
  "host_id_of host_data =
     (if is_dict host_data
      then (case py_get host_data ''id'' (PStr []) of Inr v \<Rightarrow> py_str v | Inl e \<Rightarrow> [])
      else [])"

definition extract_listing_data ::
  "externals \<Rightarrow> string \<Rightarrow> pyval \<Rightarrow> (string \<rightharpoonup> row) \<Rightarrow> world
     \<Rightarrow> (exn + row) \<times> (string \<rightharpoonup> row) \<times> world" where
  "extract_listing_data E room_id details host_cache w =
     (case py_get details ''title'' (PStr []) of
        Inl e \<Rightarrow> (Inl e, host_cache, w)
      | Inr listing_title \<Rightarrow>
          (case py_get details ''description'' (PStr []) of
             Inl e \<Rightarrow> (Inl e, host_cache, w)
           | Inr description \<Rightarrow>
               (case py_get details ''host'' (PDict []) of
                  Inl e \<Rightarrow> (Inl e, host_cache, w)
                | Inr host_data \<Rightarrow>
                    (let license_code = extract_license_code description;
                         host_id = host_id_of host_data;
                         (host_fields, host_cache, w) =
                            fetch_host_profile_fields E host_id host_cache w
                     in case host_field_values host_fields of
                          Inl e \<Rightarrow> (Inl e, host_cache, w)
                        | Inr vs \<Rightarrow>
                            (listing_row room_id listing_title license_code host_id vs,
                             host_cache, w)))))"

section \<open>Enumerating the listings of a host\<close>

text \<open>\<^verbatim>\<open>str.isdigit\<close>: not empty, and every character a digit; among the code points
  below 256 these are the ASCII digits and the superscripts one, two and three.\<close>

definition py_isdigit :: "string \<Rightarrow> bool" where
  "py_isdigit s =
     (s \<noteq> [] \<and> list_all (\<lambda>c. is_digit c \<or> c \<in> set [CHR 0xB2, CHR 0xB3, CHR 0xB9]) s)"

text \<open>\<^verbatim>\<open>it.get("room_id") or it.get("id") or it.get("listing", {}).get("id")\<close>: the
  first of the three that is truthy, else the last one; the third lookup raises when
  the \<^verbatim>\<open>listing\<close> entry is not a dict.\<close>

definition listing_rid :: "pyval \<Rightarrow> exn + pyval" where
  "listing_rid it =
     (case py_get it ''room_id'' PNone of
        Inl e \<Rightarrow> Inl e
      | Inr a \<Rightarrow>
          if py_truthy a then Inr a
          else
            (case py_get it ''id'' PNone of
               Inl e \<Rightarrow> Inl e
             | Inr b \<Rightarrow>
                 if py_truthy b then Inr b
                 else
                   (case py_get it ''listing'' (PDict []) of
                      Inl e \<Rightarrow> Inl e
                    | Inr listing \<Rightarrow> py_get listing ''id'' PNone)))"

text \<open>One iteration of the loop over the listings: the identifier to append, if any.\<close>

definition item_room_id :: "pyval \<Rightarrow> exn + string option" where
  "item_room_id it =
     (if is_dict it then
        (case listing_rid it of
           Inl e \<Rightarrow> Inl e
         | Inr rid \<Rightarrow> Inr (if py_truthy rid then Some (py_str rid) else None))
      else
        (let s = py_strip (py_str it)
         in Inr (if py_isdigit s then Some s else None)))"

fun collect_room_ids :: "pyval list \<Rightarrow> string list \<Rightarrow> exn + string list" where
  "collect_room_ids [] room_ids = Inr room_ids"
| "collect_room_ids (it # its) room_ids =
     (case item_room_id it of
        Inl e \<Rightarrow> Inl e
      | Inr None \<Rightarrow> collect_room_ids its room_ids
      | Inr (Some rid) \<Rightarrow> collect_room_ids its (room_ids @ [rid]))"

text \<open>\<^verbatim>\<open>list(dict.fromkeys(xs))\<close>: the keys in the order of their first insertion.\<close>

definition dict_fromkeys :: "'a list \<Rightarrow> 'a list" where
  "dict_fromkeys xs = foldl (\<lambda>keys k. if k \<in> set keys then keys else keys @ [k]) [] xs"

definition get_room_ids_from_host ::
  "externals \<Rightarrow> string \<Rightarrow> world \<Rightarrow> (exn + string list) \<times> world" where
  "get_room_ids_from_host E host_id w =
     (let (api_key, w) = get_api_credentials E w;
          w = emit (UserListingsRequest host_id) w
      in case api_get_listings_from_user E host_id api_key of
           Inl e \<Rightarrow> (Inl e, w)
         | Inr response \<Rightarrow>
             (let listings = (if py_truthy response then response else PList [])
              in case py_iter listings of
                   Inl e \<Rightarrow> (Inl e, w)
                 | Inr items \<Rightarrow>
                     (case collect_room_ids items [] of
                        Inl e \<Rightarrow> (Inl e, w)
                      | Inr room_ids \<Rightarrow> (Inr (dict_fromkeys room_ids), w))))"

section \<open>The pipeline\<close>

text \<open>\<^verbatim>\<open>get_listing_details\<close> is the detail fetch under
  \<^verbatim>\<open>retry_on_failure(max_retries=3, delay=2)\<close>; its invocations and sleeps enter the
  trace of the run.\<close>

definition retry_event :: "string \<Rightarrow> revent \<Rightarrow> event" where
  "retry_event room_id ev = (case ev of Invoked \<Rightarrow> DetailsRequest room_id | Slept t \<Rightarrow> BackoffSleep t)"

definition get_listing_details ::
  "externals \<Rightarrow> string \<Rightarrow> world \<Rightarrow> (exn, pyval) outcome \<times> world" where
  "get_listing_details E room_id w =
     (let (res, tr) = retry_on_failure 3 2 (api_get_details E room_id)
      in (res, w\<lparr>trace := trace w @ map (retry_event room_id) tr\<rparr>))"

text \<open>
  One iteration of the loop of \<^verbatim>\<open>main\<close>. An empty payload leaves the iteration by
  \<^verbatim>\<open>continue\<close>; an exception, of the fetch or of the extraction, is caught and the
  iteration goes on to the \<^verbatim>\<open>time.sleep\<close> at its end, as a successful one does.
\<close>

definition process_listing ::
  "externals \<Rightarrow> string \<Rightarrow> row list \<times> (string \<rightharpoonup> row) \<times> world
     \<Rightarrow> row list \<times> (string \<rightharpoonup> row) \<times> world" where
  "process_listing E room_id st =
     (case st of (records, host_cache, w) \<Rightarrow>
        (case get_listing_details E room_id w of
           (Raised e, w) \<Rightarrow> (records, host_cache, emit DelaySleep w)
         | (ReturnedNone, w) \<Rightarrow> (records, host_cache, w)
         | (Returned details, w) \<Rightarrow>
             if \<not> py_truthy details then (records, host_cache, w)
             else
               (case extract_listing_data E room_id details host_cache w of
                  (Inl e, host_cache, w) \<Rightarrow> (records, host_cache, emit DelaySleep w)
                | (Inr rec, host_cache, w) \<Rightarrow>
                    (records @ [rec], host_cache,
                     emit DelaySleep (save_processed_id room_id w)))))"

fun process_listings ::
  "externals \<Rightarrow> string list \<Rightarrow> row list \<times> (string \<rightharpoonup> row) \<times> world
     \<Rightarrow> row list \<times> (string \<rightharpoonup> row) \<times> world" where
  "process_listings E [] st = st"
| "process_listings E (room_id # remaining) st =
     process_listings E remaining (process_listing E room_id st)"

text \<open>
  \<^verbatim>\<open>main\<close>, given the value of the environment variable \<^verbatim>\<open>HOST_URL\<close> (\<open>None\<close> when it
  is not set). The run ends \<open>Aborted\<close> at one of the two early \<^verbatim>\<open>return\<close>s,
  \<open>Crashed\<close> when the enumeration raises (nothing catches it), \<open>Completed\<close> otherwise.
\<close>

datatype exit = Aborted | Crashed exn | Completed

definition main :: "externals \<Rightarrow> string option \<Rightarrow> world \<Rightarrow> exit \<times> world" where
  "main E env_host_url w =
     (let host_url = py_strip (case env_host_url of None \<Rightarrow> [] | Some v \<Rightarrow> v)
      in if host_url = [] then (Aborted, w)
         else
           (let host_id = parse_host_id_from_url (lib_urlparse_path E) host_url
            in if host_id = [] then (Aborted, w)
               else
                 (let w = write_csv [] w;
                      processed_ids = load_processed_ids w
                  in case get_room_ids_from_host E host_id w of
                       (Inl e, w) \<Rightarrow> (Crashed e, w)
                     | (Inr room_ids, w) \<Rightarrow>
                         (let remaining = filter (\<lambda>rid. rid \<notin> processed_ids) room_ids;
                              (records, host_cache, w) =
                                 process_listings E remaining ([], Map.empty, w)
                          in (Completed, write_csv records w)))))"

section \<open>Notions used to state the properties of a run\<close>

text \<open>The sleeps among the effects of a run.\<close>

fun is_sleep :: "event \<Rightarrow> bool" where
  "is_sleep (BackoffSleep t) = True"
| "is_sleep DelaySleep = True"
| "is_sleep ev = False"

definition sleep_events :: "event list \<Rightarrow> event list" where
  "sleep_events tr = filter is_sleep tr"

text \<open>The text of the progress log, empty while the file does not exist, and the
  identifier that a row of the table is for.\<close>

definition log_text :: "world \<Rightarrow> string" where
  "log_text w = (case processed_ids_file w of None \<Rightarrow> [] | Some text \<Rightarrow> text)"

definition log_entries :: "string list \<Rightarrow> string" where
  "log_entries ids = concat (map (\<lambda>room_id. room_id @ [CHR 0x0A]) ids)"

definition row_room_id :: "row \<Rightarrow> pyval option" where
  "row_room_id r = map_of r ''room_id''"

text \<open>The detail fetch of a room gives nothing to process: the wrapper raises after its
  last attempt, or the payload is empty or absent.\<close>

definition fetch_fails :: "externals \<Rightarrow> string \<Rightarrow> bool" where
  "fetch_fails E room_id =
     (case fst (retry_on_failure 3 2 (api_get_details E room_id)) of
        Raised e \<Rightarrow> True
      | ReturnedNone \<Rightarrow> True
      | Returned details \<Rightarrow> \<not> py_truthy details)"

definition fetch_raises :: "externals \<Rightarrow> string \<Rightarrow> bool" where
  "fetch_raises E room_id =
     (case fst (retry_on_failure 3 2 (api_get_details E room_id)) of
        Raised e \<Rightarrow> True
      | _ \<Rightarrow> False)"

definition payload_empty :: "externals \<Rightarrow> string \<Rightarrow> bool" where
  "payload_empty E room_id =
     (case fst (retry_on_failure 3 2 (api_get_details E room_id)) of
        Raised e \<Rightarrow> False
      | ReturnedNone \<Rightarrow> True
      | Returned details \<Rightarrow> \<not> py_truthy details)"

text \<open>A new process on the same file system: the module globals are initial again and
  the effects are counted from zero; the files stay.\<close>

definition restart :: "world \<Rightarrow> world" where
  "restart w = w\<lparr>api_key_cache := None, trace := []\<rparr>"

definition initial_world :: world where
  "initial_world =
     \<lparr>api_key_cache = None, processed_ids_file = None, csv_file = None, trace = []\<rparr>"

text \<open>The sleeps of one loop iteration, as the program takes them: the backoffs of the
  wrapper, then the pause at the end of the iteration unless the payload was empty.\<close>

definition listing_sleeps :: "externals \<Rightarrow> string \<Rightarrow> event list" where
  "listing_sleeps E room_id =
     map BackoffSleep (sleeps (snd (retry_on_failure 3 2 (api_get_details E room_id))))
     @ (if payload_empty E room_id then [] else [DelaySleep])"

text \<open>What a run works on, computed as \<^verbatim>\<open>main\<close> computes it: the resolved host, the
  identifiers that the enumeration returns, and those not yet in the progress log.\<close>

definition resolved_host :: "externals \<Rightarrow> string option \<Rightarrow> string" where
  "resolved_host E env_host_url =
     parse_host_id_from_url (lib_urlparse_path E)
       (py_strip (case env_host_url of None \<Rightarrow> [] | Some v \<Rightarrow> v))"

definition enumerated_ids :: "externals \<Rightarrow> string option \<Rightarrow> world \<Rightarrow> string list" where
  "enumerated_ids E env_host_url w =
     (case fst (get_room_ids_from_host E (resolved_host E env_host_url) (write_csv [] w)) of
        Inl e \<Rightarrow> []
      | Inr room_ids \<Rightarrow> room_ids)"

definition remaining_ids :: "externals \<Rightarrow> string option \<Rightarrow> world \<Rightarrow> string list" where
  "remaining_ids E env_host_url w =
     filter (\<lambda>rid. rid \<notin> load_processed_ids w) (enumerated_ids E env_host_url w)"

text \<open>An identifier that the progress log gives back as it was written: not empty, no
  whitespace at either end, no line break inside. A log to which entries can be
  appended: empty, or ending with a line break.\<close>

definition log_safe :: "string \<Rightarrow> bool" where
  "log_safe room_id =
     (room_id \<noteq> [] \<and> py_strip room_id = room_id
      \<and> CHR 0x0A \<notin> set room_id \<and> CHR 0x0D \<notin> set room_id)"

definition log_terminated :: "string \<Rightarrow> bool" where
  "log_terminated text = (text = [] \<or> last text = CHR 0x0A \<or> last text = CHR 0x0D)"

section \<open>Sample inputs\<close>

text \<open>A detail payload, and a marketplace that answers the enumeration with a given
  payload and the detail fetch by a given function; the host lookups fail.\<close>

definition sample_details :: pyval where
  "sample_details =
     PDict [(''title'', PStr ''Flat''), (''description'', PStr ''License No: X1''),
            (''host'', PDict [(''id'', PInt 9)])]"

definition sample_externals :: "pyval \<Rightarrow> (string \<Rightarrow> nat \<Rightarrow> exn + pyval) \<Rightarrow> externals" where
  "sample_externals listings details =
     \<lparr>lib_urlparse_path = urlparse_path_model,
      lib_fromisoformat_year = (\<lambda>s. Inl ValueError),
      clock_current_year = 2024,
      api_get_api_key = Inr ''key'',
      api_get_listings_from_user = (\<lambda>host_id api_key. Inr listings),
      api_get_details = details,
      api_get_host_details = (\<lambda>api_key host_id. Inl (OtherError ''unavailable''))\<rparr>"

text \<open>Three listings, of which the second cannot be fetched.\<close>

definition three_listings :: pyval where
  "three_listings =
     PList [PDict [(''room_id'', PInt 41)], PDict [(''room_id'', PInt 42)],
            PDict [(''room_id'', PInt 43)]]"

definition failing_42 :: "string \<Rightarrow> nat \<Rightarrow> exn + pyval" where
  "failing_42 room_id k =
     (if room_id = ''42'' then Inl (OtherError ''timeout'') else Inr sample_details)"

text \<open>A marketplace whose every detail fetch succeeds, a host with one listing of a
  given identifier, and a progress log whose last line has no line break.\<close>

definition always_sample :: "string \<Rightarrow> nat \<Rightarrow> exn + pyval" where
  "always_sample room_id k = Inr sample_details"

definition one_listing :: "string \<Rightarrow> pyval" where
  "one_listing room_id = PList [PDict [(''room_id'', PStr room_id)]]"

definition unterminated_log_world :: world where
  "unterminated_log_world = initial_world\<lparr>processed_ids_file := Some ''7''\<rparr>"

text \<open>The rows of the output table, none while the file does not exist.\<close>

definition table_rows :: "world \<Rightarrow> row list" where
  "table_rows w = (case csv_file w of None \<Rightarrow> [] | Some rows \<Rightarrow> rows)"

text \<open>A host profile with the six keys that \<^verbatim>\<open>fetch_host_profile_fields\<close> gives it.\<close>

definition profile_keys :: "row \<Rightarrow> bool" where
  "profile_keys f = (map fst f = map fst empty_profile)"

text \<open>
  A listing that the loop turns into a row: its fetch returns, within the retries, a
  payload that is not empty and is a dict (on any other payload the extraction raises
  at its first \<^verbatim>\<open>details.get\<close>). The number of times its details are requested. A host
  cache as the program builds it: every profile in it has the six keys.
\<close>

definition processable :: "externals \<Rightarrow> string \<Rightarrow> bool" where
  "processable E room_id =
     (case fst (retry_on_failure 3 2 (api_get_details E room_id)) of
        Returned details \<Rightarrow> py_truthy details \<and> is_dict details
      | _ \<Rightarrow> False)"

definition fetch_attempts :: "externals \<Rightarrow> string \<Rightarrow> nat" where
  "fetch_attempts E room_id =
     invocations (snd (retry_on_failure 3 2 (api_get_details E room_id)))"

definition cache_ok :: "(string \<rightharpoonup> row) \<Rightarrow> bool" where
  "cache_ok host_cache = (\<forall>h g. host_cache h = Some g \<longrightarrow> profile_keys g)"

fun is_details_request :: "event \<Rightarrow> bool" where
  "is_details_request (DetailsRequest room_id) = True"
| "is_details_request ev = False"

definition detail_requests :: "event list \<Rightarrow> event list" where
  "detail_requests tr = filter is_details_request tr"

text \<open>Two listings of which the second cannot be fetched, and a progress log that
  holds the one entry \<^verbatim>\<open>4\<close> without a line break.\<close>

definition two_listings :: pyval where
  "two_listings = PList [PDict [(''room_id'', PInt 2)], PDict [(''room_id'', PInt 42)]]"

definition log_4_world :: world where
  "log_4_world = initial_world\<lparr>processed_ids_file := Some ''4''\<rparr>"

section \<open>The license code, in the words of the specification\<close>

text \<open>
  The notions that the description of the license extraction uses, stated on the text
  and without the matcher: a keyword phrase is one of three first words, a run of
  whitespace, and a second word, compared without regard to case; a separator is a
  colon or a whitespace character; the code runs up to the next comma or line feed.
\<close>

definition ci_prefix :: "string \<Rightarrow> string \<Rightarrow> bool" where
  "ci_prefix p s =
     (length p \<le> length s \<and> map ascii_lower (take (length p) s) = map ascii_lower p)"

definition keyword_words :: "(string \<times> string list) list" where
  "keyword_words =
     [(''Registration'', [''Details'', ''Detail'', ''Number'', ''No.'', ''No'', ''Code'']),
      (''License'', [''Number'', ''No.'', ''No'', ''Code'']),
      (''Permit'', [''Number'', ''No.'', ''No''])]"

definition sep_char :: "char \<Rightarrow> bool" where
  "sep_char c = (c = CHR '':'' \<or> py_isspace c)"

definition capturable :: "char \<Rightarrow> bool" where
  "capturable c = (c \<noteq> CHR '','' \<and> c \<noteq> CHR 0x0A)"

text \<open>The texts that follow a keyword phrase at the start of \<open>u\<close>, the longer phrase
  first where two of them fit.\<close>

definition second_words :: "string list \<Rightarrow> string \<Rightarrow> string list" where
  "second_words ws b = map (\<lambda>w. drop (length w) b) (filter (\<lambda>w. ci_prefix w b) ws)"

definition phrase_rests :: "string \<Rightarrow> string list \<Rightarrow> string \<Rightarrow> string list" where
  "phrase_rests w1 ws u =
     (if ci_prefix w1 u \<and> takeWhile py_isspace (drop (length w1) u) \<noteq> []
      then second_words ws (dropWhile py_isspace (drop (length w1) u))
      else [])"

definition keyword_rests :: "string \<Rightarrow> string list" where
  "keyword_rests u = concat (map (\<lambda>(w1, ws). phrase_rests w1 ws u) keyword_words)"

text \<open>After a keyword phrase, the places where the code may start: after the whole run
  of separators, or after a shorter part of it, the longest first.\<close>

definition after_separators :: "string \<Rightarrow> string list" where
  "after_separators a = map (\<lambda>n. drop n a) (rev [0..<Suc (length (takeWhile sep_char a))])"

definition candidates :: "string \<Rightarrow> string list" where
  "candidates u = concat (map after_separators (keyword_rests u))"

definition starts_code :: "string \<Rightarrow> bool" where
  "starts_code v = (case v of [] \<Rightarrow> False | c # cs \<Rightarrow> capturable c)"

definition capture_at :: "string \<Rightarrow> string option" where
  "capture_at u =
     (case filter starts_code (candidates u) of
        [] \<Rightarrow> None
      | v # vs \<Rightarrow> Some (takeWhile capturable v))"

text \<open>Replacing the tags: a \<^verbatim>\<open><\<close>, at least one character other than \<^verbatim>\<open>>\<close>, and the
  next \<^verbatim>\<open>>\<close> become one blank.\<close>

function strip_tags :: "string \<Rightarrow> string" where
  "strip_tags [] = []"
| "strip_tags (c # cs) =
     (if c = CHR ''<'' \<and> takeWhile (\<lambda>x. x \<noteq> CHR ''>'') cs \<noteq> []
         \<and> dropWhile (\<lambda>x. x \<noteq> CHR ''>'') cs \<noteq> []
      then CHR '' '' # strip_tags (tl (dropWhile (\<lambda>x. x \<noteq> CHR ''>'') cs))
      else c # strip_tags cs)"
  by pat_completeness auto
termination
proof (relation "measure length")
  fix c :: char and cs :: string
  have "length (tl (dropWhile (\<lambda>x. x \<noteq> CHR ''>'') cs)) \<le> length cs"
    by (metis diff_le_self le_trans length_dropWhile_le length_tl)
  then show "(tl (dropWhile (\<lambda>x. x \<noteq> CHR ''>'') cs), c # cs) \<in> measure length"
    by simp
qed simp_all

definition normalize_code :: "string \<Rightarrow> string" where
  "normalize_code code = join '' '' (py_split (py_strip code))"

text \<open>
  The extraction as the program performs it: at the first position of the tag-free text
  where a keyword phrase, separators and at least one character of a code follow one
  another, the code that starts at the first candidate place.
\<close>

definition license_code_amended :: "string \<Rightarrow> string" where
  "license_code_amended text =
     (case filter (\<lambda>u. capture_at u \<noteq> None) (tails (strip_tags text)) of
        [] \<Rightarrow> []
      | u # us \<Rightarrow> (case capture_at u of None \<Rightarrow> [] | Some code \<Rightarrow> normalize_code code))"

text \<open>
  The extraction as the claim words it: at the first occurrence of a keyword phrase, the
  characters after the phrase and its separators, up to the next comma or line feed.
\<close>

definition license_code_claimed :: "string \<Rightarrow> string" where
  "license_code_claimed text =
     (case filter (\<lambda>u. keyword_rests u \<noteq> []) (tails (strip_tags text)) of
        [] \<Rightarrow> []
      | u # us \<Rightarrow>
          normalize_code (takeWhile capturable (dropWhile sep_char (hd (keyword_rests u)))))"

text \<open>The ordinary case: the first keyword phrase of the tag-free text and its separators
  are followed by a character of a code (not by a comma and not by the end of the
  text), or there is no keyword phrase at all.\<close>

definition ordinary_text :: "string \<Rightarrow> bool" where
  "ordinary_text text =
     (case filter (\<lambda>u. keyword_rests u \<noteq> []) (tails (strip_tags text)) of
        [] \<Rightarrow> True
      | u # us \<Rightarrow> starts_code (dropWhile sep_char (hd (keyword_rests u))))"

text \<open>The second words of the keyword alternatives, as the patterns spell them.\<close>

definition details_tail :: regex where
  "details_tail = Cat (Lit ''Detail'') (Opt (Lit ''s''))"

definition number_tail :: regex where
  "number_tail = Alt (Lit ''Number'') (Alt (Cat (Lit ''No'') (Opt (Lit ''.''))) (Lit ''Code''))"

definition permit_tail :: regex where
  "permit_tail = Alt (Lit ''Number'') (Cat (Lit ''No'') (Opt (Lit ''.'')))"

section \<open>Properties of the retry wrapper\<close>

lemma sleeps_append: "sleeps (a @ b) = sleeps a @ sleeps b"
  by (induction a rule: sleeps.induct) auto

lemma invocations_append: "invocations (a @ b) = invocations a + invocations b"
  by (simp add: invocations_def)

lemma sleeps_rounds:
  "sleeps (concat (map (\<lambda>i. [Invoked, Slept (f i)]) xs)) = map f xs"
  by (induction xs) auto

lemma invocations_rounds:
  "invocations (concat (map (\<lambda>i. [Invoked, Slept (f i)]) xs)) = length xs"
  by (induction xs) (auto simp: invocations_def)

text \<open>An operation that raises every time: every attempt but the last is followed by
  its backoff sleep, and the last attempt's exception is the one that leaves the wrapper.\<close>

lemma retry_loop_all_fail:
  "\<forall>k. func k = Inl (err k) \<Longrightarrow>
   retry_loop (a + Suc n) delay func [a..<a + Suc n] c tr =
     (Raised (err (c + n)),
      tr @ concat (map (\<lambda>i. [Invoked, Slept (delay * 2 ^ i)]) [a..<a + n]) @ [Invoked])"
proof (induction n arbitrary: a c tr)
  case 0
  then show ?case by simp
next
  case (Suc n)
  have outer: "[a..<a + Suc (Suc n)] = a # [Suc a..<Suc a + Suc n]"
    by (simp add: upt_rec)
  have inner: "[a..<a + Suc n] = a # [Suc a..<Suc a + n]"
    by (simp add: upt_rec)
  show ?case
    using Suc.IH[OF Suc.prems, of "Suc a" "Suc c" "tr @ [Invoked, Slept (delay * 2 ^ a)]"]
      Suc.prems outer inner
    by simp
qed

lemma retry_on_failure_all_fail:
  assumes "\<forall>k. func k = Inl (err k)"
  shows "retry_on_failure (Suc n) delay func =
     (Raised (err n),
      concat (map (\<lambda>i. [Invoked, Slept (delay * 2 ^ i)]) [0..<n]) @ [Invoked])"
  using retry_loop_all_fail[OF assms, of 0 n delay 0 "[]"]
  by (simp add: retry_on_failure_def)

lemma retry_two_failures_then_success:
  "func 0 = Inl e0 \<Longrightarrow> func (Suc 0) = Inl e1 \<Longrightarrow> func 2 = Inr v \<Longrightarrow>
   retry_on_failure 3 2 func = (Returned v, [Invoked, Slept 2, Invoked, Slept 4, Invoked])"
  by (simp add: retry_on_failure_def upt_rec numeral_2_eq_2 numeral_3_eq_3)

text \<open>
  Claim C3 (retry policy). Under \<open>max_retries = 3\<close> and \<open>delay = 2\<close>: an operation whose
  first two invocations raise and whose third returns \<open>v\<close> is invoked exactly three
  times, with sleeps of 2 and 4 in between, and the wrapper returns \<open>v\<close>; an operation
  that raises on every invocation is invoked exactly three times and the wrapper raises
  the third invocation's exception as it is. For any attempt limit \<open>Suc n\<close> and any
  \<open>delay\<close>, the sleep after failed attempt number \<open>attempt\<close> is \<open>delay * 2 ^ attempt\<close>
  and nothing else: the sleeps are a function of \<open>delay\<close> and the attempt number only.
\<close>

theorem retry_policy:
  fixes func :: "nat \<Rightarrow> 'e + 'a"
  shows "(func 0 = Inl e0 \<and> func 1 = Inl e1 \<and> func 2 = Inr v \<longrightarrow>
            retry_on_failure 3 2 func
              = (Returned v, [Invoked, Slept 2, Invoked, Slept 4, Invoked])
            \<and> invocations (snd (retry_on_failure 3 2 func)) = 3)
       \<and> ((\<forall>k. func k = Inl (err k)) \<longrightarrow>
            retry_on_failure 3 2 func
              = (Raised (err 2), [Invoked, Slept 2, Invoked, Slept 4, Invoked])
            \<and> invocations (snd (retry_on_failure 3 2 func)) = 3)
       \<and> ((\<forall>k. func k = Inl (err k)) \<longrightarrow>
            fst (retry_on_failure (Suc n) delay func) = Raised (err n)
            \<and> invocations (snd (retry_on_failure (Suc n) delay func)) = Suc n
            \<and> sleeps (snd (retry_on_failure (Suc n) delay func))
                = map (\<lambda>attempt. delay * 2 ^ attempt) [0..<n])"
proof (intro conjI impI)
  assume h: "func 0 = Inl e0 \<and> func 1 = Inl e1 \<and> func 2 = Inr v"
  then show r: "retry_on_failure 3 2 func
      = (Returned v, [Invoked, Slept 2, Invoked, Slept 4, Invoked])"
    by (simp add: retry_two_failures_then_success)
  show "invocations (snd (retry_on_failure 3 2 func)) = 3"
    by (simp add: r invocations_def)
next
  assume h: "\<forall>k. func k = Inl (err k)"
  have "retry_on_failure (Suc 2) 2 func =
     (Raised (err 2), concat (map (\<lambda>i. [Invoked, Slept (2 * 2 ^ i)]) [0..<2]) @ [Invoked])"
    by (rule retry_on_failure_all_fail[OF h])
  then show r: "retry_on_failure 3 2 func
      = (Raised (err 2), [Invoked, Slept 2, Invoked, Slept 4, Invoked])"
    by (simp add: numeral_3_eq_3 numeral_2_eq_2 upt_rec)
  show "invocations (snd (retry_on_failure 3 2 func)) = 3"
    by (simp add: r invocations_def)
next
  assume h: "\<forall>k. func k = Inl (err k)"
  note r = retry_on_failure_all_fail[OF h, of n delay]
  show "fst (retry_on_failure (Suc n) delay func) = Raised (err n)"
    by (simp add: r)
  show "invocations (snd (retry_on_failure (Suc n) delay func)) = Suc n"
    by (simp add: r invocations_append invocations_rounds) (simp add: invocations_def)
  show "sleeps (snd (retry_on_failure (Suc n) delay func))
      = map (\<lambda>attempt. delay * 2 ^ attempt) [0..<n]"
    by (simp add: r sleeps_append sleeps_rounds)
qed

theorem retry_policy_witness:
  "retry_on_failure 3 2 (\<lambda>k. if k < 2 then Inl (''timeout'', k) else Inr ''payload'')
     = (Returned ''payload'', [Invoked, Slept 2, Invoked, Slept 4, Invoked])
   \<and> retry_on_failure 3 2 (\<lambda>k. Inl (''timeout'', k) :: (string \<times> nat) + string)
     = (Raised (''timeout'', 2), [Invoked, Slept 2, Invoked, Slept 4, Invoked])
   \<and> sleeps (snd (retry_on_failure 4 5 (\<lambda>k. Inl (''timeout'', k) :: (string \<times> nat) + string)))
     = [5, 10, 20]"
proof -
  let ?f = "\<lambda>k::nat. if k < 2 then Inl (''timeout'', k) else (Inr ''payload'' :: (string \<times> nat) + string)"
  let ?g = "\<lambda>k::nat. Inl (''timeout'', k) :: (string \<times> nat) + string"
  have a: "?f 0 = Inl (''timeout'', 0) \<and> ?f 1 = Inl (''timeout'', 1) \<and> ?f 2 = Inr ''payload''"
    by simp
  have b: "\<forall>k. ?g k = Inl ((\<lambda>k. (''timeout'', k)) k)"
    by simp
  have four: "(4::nat) = Suc 3"
    by simp
  have three: "[0..<3] = [0, 1, 2]"
    by (simp add: upt_rec)
  show ?thesis
    using retry_policy[of ?f "(''timeout'', 0)" "(''timeout'', 1)" "''payload''" "\<lambda>k. (''timeout'', k)" 0 0]
      retry_policy[of ?g "(''timeout'', 0)" "(''timeout'', 1)" "''payload''" "\<lambda>k. (''timeout'', k)" 3 5]
      a b
    unfolding four three
    by simp
qed


section \<open>Properties of the resolver\<close>

lemma takeWhile_all: "(length (takeWhile P xs) = length xs) = list_all P xs"
  by (induction xs) (auto simp: list_all_iff)

lemma length_takeWhile_bound: "length (takeWhile P xs) \<le> length xs"
  by (induction xs) auto

lemma cmatch_digit: "cmatch ic CDigit = is_digit"
  by (rule ext) simp

lemma fullmatch_host_id:
  "(re_fullmatch False host_id_pattern t \<noteq> None) = is_bare_id t"
proof -
  let ?run = "length (takeWhile is_digit t)"
  let ?top = "min 25 ?run"
  have r: "rmatch False host_id_pattern (t, None)
      = map (\<lambda>n. (drop n t, None)) (rev [5..<Suc ?top])"
    by (simp add: host_id_pattern_def cmatch_digit Let_def)
  have "(re_fullmatch False host_id_pattern t \<noteq> None)
      = (filter (\<lambda>(s', g). s' = []) (rmatch False host_id_pattern (t, None)) \<noteq> [])"
    by (simp add: re_fullmatch_def split: list.splits)
  also have "\<dots> = (\<exists>n\<in>{5..?top}. length t \<le> n)"
    unfolding r by (auto simp: filter_empty_conv)
  also have "\<dots> = is_bare_id t"
  proof
    assume "\<exists>n\<in>{5..?top}. length t \<le> n"
    then obtain n where n: "5 \<le> n" "n \<le> ?top" "length t \<le> n" by auto
    have "?run \<le> length t" by (rule length_takeWhile_bound)
    with n have "?run = length t" "length t \<le> 25" "5 \<le> length t" by auto
    then show "is_bare_id t" by (simp add: is_bare_id_def takeWhile_all)
  next
    assume "is_bare_id t"
    then have "?run = length t" "5 \<le> length t" "length t \<le> 25"
      by (simp_all add: is_bare_id_def takeWhile_all)
    then show "\<exists>n\<in>{5..?top}. length t \<le> n"
      by (intro bexI[of _ "length t"]) auto
  qed
  finally show ?thesis .
qed

lemma lit_match_iff: "(lit_match False l s = Some r) = (s = l @ r)"
proof (induction l arbitrary: s)
  case Nil
  show ?case by auto
next
  case (Cons c cs)
  show ?case by (cases s) (auto simp: Cons.IH)
qed

lemma users_occurrenceI:
  "kind \<in> {''show'', ''profile''} \<Longrightarrow> is_digit d
   \<Longrightarrow> users_occurrence (''/users/'' @ kind @ ''/'' @ d # q)"
  by (auto simp: users_occurrence_def)

lemma grp_digits_none:
  "takeWhile is_digit v = [] \<Longrightarrow> rmatch False (Grp (Rep CDigit 1 None)) (v, g) = []"
  by (simp add: Let_def cmatch_digit)

lemma grp_digits_some:
  assumes "takeWhile is_digit v \<noteq> []"
  shows "\<exists>more. rmatch False (Grp (Rep CDigit 1 None)) (v, g)
           = (dropWhile is_digit v, Some (takeWhile is_digit v)) # more"
proof -
  let ?run = "length (takeWhile is_digit v)"
  from assms have pos: "Suc 0 \<le> ?run" by (cases "takeWhile is_digit v") auto
  have d: "drop ?run v = dropWhile is_digit v"
    by (metis append_eq_conv_conj takeWhile_dropWhile_id)
  have t: "take (length v - length (dropWhile is_digit v)) v = takeWhile is_digit v"
    by (metis add_diff_cancel_right' append_eq_conv_conj length_append takeWhile_dropWhile_id)
  show ?thesis
    using pos by (simp add: Let_def cmatch_digit d t)
qed

lemma grp_digits_all:
  assumes "x \<in> set (rmatch False (Grp (Rep CDigit 1 None)) (v, g))"
  shows "\<exists>ds. snd x = Some ds \<and> ds \<noteq> [] \<and> list_all is_digit ds"
proof -
  let ?run = "length (takeWhile is_digit v)"
  from assms obtain n where n: "1 \<le> n" "n \<le> ?run"
      and x: "x = (drop n v, Some (take (length v - length (drop n v)) v))"
    by (auto simp: Let_def cmatch_digit)
  have le: "n \<le> length v"
    using n(2) length_takeWhile_bound[of is_digit v] by linarith
  then have "length v - (length v - n) = n"
    by simp
  then have tk: "take (length v - length (drop n v)) v = take n v"
    by simp
  have "take n v = take n (takeWhile is_digit v @ dropWhile is_digit v)"
    by simp
  also have "\<dots> = take n (takeWhile is_digit v)"
    using n(2) by (simp del: takeWhile_dropWhile_id)
  finally have pre: "take n v = take n (takeWhile is_digit v)" .
  have "set (take n v) \<subseteq> set (takeWhile is_digit v)"
    unfolding pre by (rule set_take_subset)
  then have "list_all is_digit (take n v)"
    by (auto simp: list_all_iff dest: set_takeWhileD)
  moreover have "take n v \<noteq> []"
    using n(1) le by (cases v) auto
  ultimately show ?thesis
    unfolding x snd_conv tk by blast
qed

lemma users_pattern_results:
  assumes "x \<in> set (rmatch False users_path_pattern (u, None))"
  shows "\<exists>kind v. kind \<in> {''show'', ''profile''} \<and> u = ''/users/'' @ kind @ ''/'' @ v
           \<and> x \<in> set (rmatch False (Grp (Rep CDigit 1 None)) (v, None))"
proof -
  let ?G = "Grp (Rep CDigit 1 None)"
  let ?tail = "Cat (Lit ''/'') ?G"
  from assms obtain u1 where u1: "u = ''/users/'' @ u1"
      and x1: "x \<in> set (rmatch False (Cat (Alt (Lit ''show'') (Lit ''profile'')) ?tail) (u1, None))"
    unfolding users_path_pattern_def
    by (cases "lit_match False ''/users/'' u")
      (simp_all add: lit_match_iff del: lit_match.simps rmatch.simps(3,7))
  from x1 have "(\<exists>u2. u1 = ''show'' @ u2 \<and> x \<in> set (rmatch False ?tail (u2, None)))
      \<or> (\<exists>u2. u1 = ''profile'' @ u2 \<and> x \<in> set (rmatch False ?tail (u2, None)))"
    by (cases "lit_match False ''show'' u1"; cases "lit_match False ''profile'' u1")
      (auto simp: lit_match_iff simp del: lit_match.simps rmatch.simps(3,7))
  then obtain kind u2 where k: "kind \<in> {''show'', ''profile''}" "u1 = kind @ u2"
      "x \<in> set (rmatch False ?tail (u2, None))"
    by blast
  from k(3) obtain v where v: "u2 = ''/'' @ v" "x \<in> set (rmatch False ?G (v, None))"
    by (cases "lit_match False ''/'' u2")
      (auto simp: lit_match_iff simp del: lit_match.simps rmatch.simps(3,7))
  have "u = ''/users/'' @ kind @ ''/'' @ v"
    using u1 k(2) v(1) by simp
  with k(1) v(2) show ?thesis by blast
qed

lemma users_match_none:
  assumes "\<not> users_occurrence u"
  shows "re_match False users_path_pattern u = None"
proof (rule ccontr)
  assume "re_match False users_path_pattern u \<noteq> None"
  then obtain x where "x \<in> set (rmatch False users_path_pattern (u, None))"
    by (cases "rmatch False users_path_pattern (u, None)") (auto simp: re_match_def)
  from users_pattern_results[OF this] obtain kind v where
    k: "kind \<in> {''show'', ''profile''}" "u = ''/users/'' @ kind @ ''/'' @ v"
      "rmatch False (Grp (Rep CDigit 1 None)) (v, None) \<noteq> []"
    by fastforce
  from k(3) have "takeWhile is_digit v \<noteq> []"
    using grp_digits_none by blast
  then obtain d q where "v = d # q" "is_digit d"
    by (cases v) (auto split: if_splits)
  with k have "users_occurrence u"
    using users_occurrenceI by blast
  with assms show False by simp
qed

lemma users_match_digits:
  assumes "re_match False users_path_pattern u = Some g"
  shows "\<exists>ds. g = Some ds \<and> ds \<noteq> [] \<and> list_all is_digit ds"
proof -
  from assms obtain s' more where
    "rmatch False users_path_pattern (u, None) = (s', g) # more"
    by (auto simp: re_match_def split: list.splits)
  then have "(s', g) \<in> set (rmatch False users_path_pattern (u, None))"
    by simp
  from users_pattern_results[OF this] grp_digits_all show ?thesis
    by fastforce
qed

lemma users_match_some:
  assumes kind: "kind \<in> {''show'', ''profile''}"
    and ds: "ds \<noteq> []" "list_all is_digit ds"
    and rest: "rest = [] \<or> \<not> is_digit (hd rest)"
  shows "re_match False users_path_pattern (''/users/'' @ kind @ ''/'' @ ds @ rest)
           = Some (Some ds)"
proof -
  have tw: "takeWhile is_digit (ds @ rest) = ds"
    using ds(2) rest by (cases rest) (auto simp: list_all_iff takeWhile_append)
  with ds(1) have "takeWhile is_digit (ds @ rest) \<noteq> []" by simp
  from grp_digits_some[OF this, of None] tw obtain more where
    g: "rmatch False (Grp (Rep CDigit 1 None)) (ds @ rest, None)
       = (dropWhile is_digit (ds @ rest), Some ds) # more"
    by auto
  from kind show ?thesis
    by (auto simp: re_match_def users_path_pattern_def g[unfolded One_nat_def]
        simp del: rmatch.simps(3,7))
qed

lemma re_search_none:
  "list_all (\<lambda>u. re_match ic r u = None) (tails p) \<Longrightarrow> re_search ic r p = None"
  by (induction p) auto

lemma re_search_first:
  "list_all (\<lambda>u. re_match ic r u = None) (take (length pre) (tails (pre @ u)))
   \<Longrightarrow> re_match ic r u = Some g \<Longrightarrow> re_search ic r (pre @ u) = Some g"
proof (induction pre)
  case Nil
  then show ?case by (cases u) simp_all
next
  case (Cons x xs)
  then show ?case by simp
qed

lemma re_search_some:
  "re_search ic r p = Some g \<Longrightarrow> \<exists>u. re_match ic r u = Some g"
  by (induction p) (auto split: option.splits)


lemma fullmatch_host_id_None:
  "(re_fullmatch False host_id_pattern t = None) = (\<not> is_bare_id t)"
  using fullmatch_host_id[of t] by blast

lemma py_strip_Nil: "py_strip [] = []"
  by (simp add: py_strip_def py_rstrip_def py_lstrip_def)

lemma bare_id_nonempty: "is_bare_id (py_strip s) \<Longrightarrow> s \<noteq> []"
  by (auto simp: is_bare_id_def py_strip_Nil)

lemma parse_bare_id:
  "is_bare_id (py_strip s) \<Longrightarrow> parse_host_id_from_url up s = py_strip s"
  using bare_id_nonempty[of s]
  by (simp add: parse_host_id_from_url_def fullmatch_host_id_None Let_def)

lemma parse_url_branch:
  "s \<noteq> [] \<Longrightarrow> \<not> is_bare_id (py_strip s) \<Longrightarrow>
   parse_host_id_from_url up s =
     (case up (py_strip s) of
        Inl e \<Rightarrow> []
      | Inr path \<Rightarrow>
          (case re_search False users_path_pattern path of
             None \<Rightarrow> [] | Some None \<Rightarrow> [] | Some (Some digits) \<Rightarrow> digits))"
  by (simp add: parse_host_id_from_url_def fullmatch_host_id_None Let_def)

lemma no_occurrence_no_match:
  "list_all (\<lambda>u. \<not> users_occurrence u) us
   \<Longrightarrow> list_all (\<lambda>u. re_match False users_path_pattern u = None) us"
  by (simp add: list_all_iff users_match_none)

text \<open>
  Claim C4 (identity resolution). When the trimmed input is a run of 5 to 25 digits, the
  resolver returns the trimmed input. When the input is not such a run and the path of
  its parse contains \<^verbatim>\<open>/users/show/\<close> or \<^verbatim>\<open>/users/profile/\<close> (in these very letters)
  followed by a maximal run of digits \<open>ds\<close>, with no such occurrence further left, the
  resolver returns \<open>ds\<close>. When the input has neither shape, because the parse raises
  or because the path has no such occurrence at any position, the resolver returns the
  empty string; the result is a string in every case, so no exception leaves the
  resolver. This holds for every behaviour \<open>urlparse_path\<close> of the URL parser.
\<close>

theorem identity_resolution:
  fixes urlparse_path :: "string \<Rightarrow> exn + string"
  shows "(is_bare_id (py_strip s) \<longrightarrow>
            parse_host_id_from_url urlparse_path s = py_strip s)
       \<and> (s \<noteq> [] \<and> \<not> is_bare_id (py_strip s)
            \<and> urlparse_path (py_strip s) = Inr (pre @ ''/users/'' @ kind @ ''/'' @ ds @ rest)
            \<and> kind \<in> {''show'', ''profile''}
            \<and> ds \<noteq> [] \<and> list_all is_digit ds \<and> (rest = [] \<or> \<not> is_digit (hd rest))
            \<and> list_all (\<lambda>u. \<not> users_occurrence u)
                 (take (length pre) (tails (pre @ ''/users/'' @ kind @ ''/'' @ ds @ rest)))
            \<longrightarrow> parse_host_id_from_url urlparse_path s = ds)
       \<and> (\<not> is_bare_id (py_strip s)
            \<and> (case urlparse_path (py_strip s) of
                  Inl e \<Rightarrow> True
                | Inr path \<Rightarrow> list_all (\<lambda>u. \<not> users_occurrence u) (tails path))
            \<longrightarrow> parse_host_id_from_url urlparse_path s = [])"
proof (intro conjI impI)
  assume "is_bare_id (py_strip s)"
  then show "parse_host_id_from_url urlparse_path s = py_strip s"
    by (rule parse_bare_id)
next
  let ?u = "''/users/'' @ kind @ ''/'' @ ds @ rest"
  assume h: "s \<noteq> [] \<and> \<not> is_bare_id (py_strip s)
      \<and> urlparse_path (py_strip s) = Inr (pre @ ?u)
      \<and> kind \<in> {''show'', ''profile''}
      \<and> ds \<noteq> [] \<and> list_all is_digit ds \<and> (rest = [] \<or> \<not> is_digit (hd rest))
      \<and> list_all (\<lambda>u. \<not> users_occurrence u) (take (length pre) (tails (pre @ ?u)))"
  then have m: "re_match False users_path_pattern ?u = Some (Some ds)"
    by (intro users_match_some) simp_all
  from h have "list_all (\<lambda>u. re_match False users_path_pattern u = None)
      (take (length pre) (tails (pre @ ?u)))"
    by (intro no_occurrence_no_match) simp
  from re_search_first[OF this m]
  have "re_search False users_path_pattern (pre @ ?u) = Some (Some ds)" .
  with h show "parse_host_id_from_url urlparse_path s = ds"
    by (simp add: parse_url_branch)
next
  assume h: "\<not> is_bare_id (py_strip s)
      \<and> (case urlparse_path (py_strip s) of
            Inl e \<Rightarrow> True
          | Inr path \<Rightarrow> list_all (\<lambda>u. \<not> users_occurrence u) (tails path))"
  show "parse_host_id_from_url urlparse_path s = []"
  proof (cases "s = []")
    case True
    then show ?thesis by (simp add: parse_host_id_from_url_def)
  next
    case False
    show ?thesis
    proof (cases "urlparse_path (py_strip s)")
      case (Inl e)
      with h False show ?thesis by (simp add: parse_url_branch)
    next
      case (Inr path)
      with h have "list_all (\<lambda>u. \<not> users_occurrence u) (tails path)" by simp
      then have "re_search False users_path_pattern path = None"
        by (intro re_search_none no_occurrence_no_match)
      with h False Inr show ?thesis by (simp add: parse_url_branch)
    qed
  qed
qed

theorem identity_resolution_witness:
  "parse_host_id_from_url urlparse_path_model ''  12345678 '' = ''12345678''
   \<and> parse_host_id_from_url urlparse_path_model
         ''https://fr.airbnb.ca/users/profile/1470630909781985417?s=1''
       = ''1470630909781985417''
   \<and> parse_host_id_from_url urlparse_path_model
         ''https://www.airbnb.com/Users/Show/12345678'' = []"
proof -
  let ?a = "''  12345678 ''"
  let ?b = "''https://fr.airbnb.ca/users/profile/1470630909781985417?s=1''"
  let ?c = "''https://www.airbnb.com/Users/Show/12345678''"
  let ?ds = "''1470630909781985417''"
  have sa: "py_strip ?a = ''12345678''"
    by code_simp
  have ha: "is_bare_id (py_strip ?a)"
    by code_simp
  have hb: "?b \<noteq> [] \<and> \<not> is_bare_id (py_strip ?b)
      \<and> urlparse_path_model (py_strip ?b) = Inr ([] @ ''/users/'' @ ''profile'' @ ''/'' @ ?ds @ [])
      \<and> ''profile'' \<in> {''show'', ''profile''}
      \<and> ?ds \<noteq> [] \<and> list_all is_digit ?ds \<and> ([] = [] \<or> \<not> is_digit (hd []))
      \<and> list_all (\<lambda>u. \<not> users_occurrence u)
           (take (length []) (tails ([] @ ''/users/'' @ ''profile'' @ ''/'' @ ?ds @ [])))"
    by code_simp
  have hc: "\<not> is_bare_id (py_strip ?c)
      \<and> (case urlparse_path_model (py_strip ?c) of
            Inl e \<Rightarrow> True
          | Inr path \<Rightarrow> list_all (\<lambda>u. \<not> users_occurrence u) (tails path))"
    by code_simp
  note res = identity_resolution[where urlparse_path = urlparse_path_model]
  have "parse_host_id_from_url urlparse_path_model ?a = py_strip ?a"
    using res[of ?a] ha by blast
  moreover have "parse_host_id_from_url urlparse_path_model ?b = ?ds"
    using res[of ?b "[]" "''profile''" ?ds "[]"] hb by blast
  moreover have "parse_host_id_from_url urlparse_path_model ?c = []"
    using res[of ?c] hc by blast
  ultimately show ?thesis
    by (simp only: sa)
qed

lemma parse_digits:
  "list_all is_digit (parse_host_id_from_url urlparse_path s)"
proof (cases "s = [] \<or> is_bare_id (py_strip s)")
  case True
  then show ?thesis
  proof
    assume "s = []"
    then show ?thesis by (simp add: parse_host_id_from_url_def)
  next
    assume "is_bare_id (py_strip s)"
    then show ?thesis by (simp add: parse_bare_id) (simp add: is_bare_id_def)
  qed
next
  case False
  then have branch: "parse_host_id_from_url urlparse_path s =
     (case urlparse_path (py_strip s) of
        Inl e \<Rightarrow> []
      | Inr path \<Rightarrow>
          (case re_search False users_path_pattern path of
             None \<Rightarrow> [] | Some None \<Rightarrow> [] | Some (Some digits) \<Rightarrow> digits))"
    by (simp add: parse_url_branch)
  show ?thesis
  proof (cases "urlparse_path (py_strip s)")
    case (Inl e)
    then show ?thesis by (simp add: branch)
  next
    case (Inr path)
    show ?thesis
    proof (cases "re_search False users_path_pattern path")
      case None
      with Inr show ?thesis by (simp add: branch)
    next
      case (Some g)
      from re_search_some[OF Some] users_match_digits
      obtain ds where "g = Some ds" "list_all is_digit ds" by blast
      with Inr Some show ?thesis by (simp add: branch)
    qed
  qed
qed

text \<open>
  Claim C8 (resolver output), as amended. For every input the result consists of
  decimal digits only (the empty string when the resolution fails). The length is
  between 5 and 25 when the trimmed input is itself a bare identifier, which is then
  returned; digits captured from a URL path have no length bound.
\<close>

theorem resolver_output_shape:
  "list_all is_digit (parse_host_id_from_url urlparse_path s)
   \<and> (is_bare_id (py_strip s) \<longrightarrow>
        parse_host_id_from_url urlparse_path s = py_strip s
        \<and> 5 \<le> length (parse_host_id_from_url urlparse_path s)
        \<and> length (parse_host_id_from_url urlparse_path s) \<le> 25)"
  using parse_digits[of urlparse_path s] parse_bare_id[of s urlparse_path]
  by (auto simp: is_bare_id_def)

theorem resolver_output_shape_witness:
  "is_bare_id (py_strip ''  12345678 '')
   \<and> list_all is_digit (parse_host_id_from_url urlparse_path_model ''  12345678 '')
   \<and> 5 \<le> length (parse_host_id_from_url urlparse_path_model ''  12345678 '')
   \<and> length (parse_host_id_from_url urlparse_path_model ''  12345678 '') \<le> 25"
proof -
  have h: "is_bare_id (py_strip ''  12345678 '')"
    by code_simp
  with resolver_output_shape[of urlparse_path_model "''  12345678 ''"] show ?thesis
    by blast
qed

text \<open>The length bound fails on a URL: the three digits of
  \<^verbatim>\<open>https://www.airbnb.com/users/show/123\<close> are returned as they are.\<close>

theorem resolver_length_counterexample:
  "\<not> resolver_output_ok
       (parse_host_id_from_url urlparse_path_model ''https://www.airbnb.com/users/show/123'')"
  by code_simp


section \<open>The aborted path and the enumeration\<close>

lemma strip_blank: "py_strip [] = [] \<and> py_strip '' '' = []"
  by code_simp

lemma rooms_url_unresolved:
  "py_strip ''https://www.airbnb.com/rooms/12345'' \<noteq> []
   \<and> parse_host_id_from_url urlparse_path_model
        (py_strip ''https://www.airbnb.com/rooms/12345'') = []"
  by code_simp

text \<open>
  Claim C7 (aborted path). The claim asks for a header-only table when the host
  reference is missing or does not resolve. In the program both early returns come
  before the first \<^verbatim>\<open>write_csv([])\<close>: the run ends with the world as it found it, so no
  table is written (and no request is sent). Shown for a missing variable, a blank one
  and a URL that is not a host URL, from any state.
\<close>

theorem aborted_run_writes_nothing:
  "main E None w = (Aborted, w)
   \<and> main E (Some '' '') w = (Aborted, w)
   \<and> main (E\<lparr>lib_urlparse_path := urlparse_path_model\<rparr>)
        (Some ''https://www.airbnb.com/rooms/12345'') w = (Aborted, w)"
  using strip_blank rooms_url_unresolved
  by (simp add: main_def Let_def)

lemma bare_example: "py_strip ''12345678'' = ''12345678'' \<and> is_bare_id ''12345678''"
  by code_simp

lemma main_crashes_on_non_dict_listing:
  "fst (main (E\<lparr>api_get_listings_from_user :=
                   \<lambda>host_id api_key. Inr (PList [PDict [(''listing'', PNone)]])\<rparr>)
          (Some ''12345678'') w) = Crashed AttributeError"
proof -
  let ?E = "E\<lparr>api_get_listings_from_user :=
                 \<lambda>host_id api_key. Inr (PList [PDict [(''listing'', PNone)]])\<rparr>"
  have p: "parse_host_id_from_url (lib_urlparse_path ?E) ''12345678'' = ''12345678''"
    using parse_bare_id[of "''12345678''"] bare_example by simp
  have "fst (get_room_ids_from_host ?E ''12345678'' w') = Inl AttributeError" for w'
    by (simp add: get_room_ids_from_host_def item_room_id_def listing_rid_def Let_def
        split: prod.splits)
  then show ?thesis
    using bare_example p
    by (simp add: main_def Let_def split: prod.splits sum.splits)
      (metis fst_conv sum.inject(1) sum.distinct(1))
qed

lemma dict_fromkeys_example:
  "dict_fromkeys [''5'', ''3'', ''5'', ''7''] = [''5'', ''3'', ''7'']"
  by (simp add: dict_fromkeys_def)

text \<open>
  Claim C6 (enumeration). The claim has every item without an identifier skipped
  without error. A dict item whose \<^verbatim>\<open>room_id\<close> and \<^verbatim>\<open>id\<close> are absent and whose
  \<^verbatim>\<open>listing\<close> entry is \<^verbatim>\<open>None\<close> has no identifier, and the third lookup raises
  \<^verbatim>\<open>AttributeError\<close> on it: the enumeration stops there, whatever the other items hold,
  and the run crashes since nothing catches the exception.
\<close>

theorem enumeration_raises_on_non_dict_listing:
  "item_room_id (PDict [(''listing'', PNone)]) = Inl AttributeError
   \<and> collect_room_ids
        [PDict [(''room_id'', PInt 5)], PDict [(''listing'', PNone)], PDict [(''id'', PInt 7)]] []
       = Inl AttributeError
   \<and> fst (main (E\<lparr>api_get_listings_from_user :=
                     \<lambda>host_id api_key. Inr (PList [PDict [(''listing'', PNone)]])\<rparr>)
            (Some ''12345678'') w) = Crashed AttributeError"
  using main_crashes_on_non_dict_listing[of E w]
  by (simp add: item_room_id_def listing_rid_def)


section \<open>Frame properties\<close>

lemma emit_frame [simp]:
  "processed_ids_file (emit ev w) = processed_ids_file w"
  "csv_file (emit ev w) = csv_file w"
  "api_key_cache (emit ev w) = api_key_cache w"
  "trace (emit ev w) = trace w @ [ev]"
  by (simp_all add: emit_def)

lemma save_frame [simp]:
  "csv_file (save_processed_id r w) = csv_file w"
  "trace (save_processed_id r w) = trace w"
  "api_key_cache (save_processed_id r w) = api_key_cache w"
  by (simp_all add: save_processed_id_def)

lemma log_text_save [simp]:
  "log_text (save_processed_id r w) = log_text w @ r @ [CHR 0x0A]"
  by (simp add: save_processed_id_def log_text_def)

lemma log_text_emit [simp]: "log_text (emit ev w) = log_text w"
  by (simp add: log_text_def)

lemma credentials_frame:
  assumes "get_api_credentials E w = (k, w')"
  shows "processed_ids_file w' = processed_ids_file w"
    and "csv_file w' = csv_file w"
    and "\<exists>evs. trace w' = trace w @ evs \<and> sleep_events evs = []"
  using assms
  by (auto simp: get_api_credentials_def sleep_events_def split: option.splits sum.splits)

lemma fetch_profile_frame:
  assumes "fetch_host_profile_fields E h c w = (f, c', w')"
  shows "processed_ids_file w' = processed_ids_file w"
    and "csv_file w' = csv_file w"
    and "\<exists>evs. trace w' = trace w @ evs \<and> sleep_events evs = []"
proof -
  obtain k w1 where cr: "get_api_credentials E w = (k, w1)"
    by (cases "get_api_credentials E w")
  from credentials_frame[OF cr] obtain evs where
    w1: "processed_ids_file w1 = processed_ids_file w" "csv_file w1 = csv_file w"
      "trace w1 = trace w @ evs" "sleep_events evs = []"
    by blast
  have "processed_ids_file w' = processed_ids_file w \<and> csv_file w' = csv_file w
      \<and> (\<exists>evs. trace w' = trace w @ evs \<and> sleep_events evs = [])"
  proof (cases "h = [] \<or> c h \<noteq> None")
    case True
    with assms have "w' = w"
      by (auto simp: fetch_host_profile_fields_def split: option.splits if_splits)
    then show ?thesis by (simp add: sleep_events_def)
  next
    case False
    with assms cr have
      "w' = emit (HostDetailsRequest h) w1
       \<or> w' = emit (UserListingsRequest h) (emit (HostDetailsRequest h) w1)"
      by (auto simp: fetch_host_profile_fields_def Let_def
          split: option.splits sum.splits prod.splits if_splits)
    then show ?thesis
      using w1 by (auto simp: sleep_events_def)
  qed
  then show "processed_ids_file w' = processed_ids_file w"
    and "csv_file w' = csv_file w"
    and "\<exists>evs. trace w' = trace w @ evs \<and> sleep_events evs = []"
    by blast+
qed

lemma extract_frame:
  assumes "extract_listing_data E r d c w = (res, c', w')"
  shows "processed_ids_file w' = processed_ids_file w"
    and "csv_file w' = csv_file w"
    and "\<exists>evs. trace w' = trace w @ evs \<and> sleep_events evs = []"
proof -
  have "w' = w \<or> (\<exists>h f c''. fetch_host_profile_fields E h c w = (f, c'', w'))"
    using assms
    by (auto simp: extract_listing_data_def Let_def split: sum.splits prod.splits)
  then have "processed_ids_file w' = processed_ids_file w \<and> csv_file w' = csv_file w
      \<and> (\<exists>evs. trace w' = trace w @ evs \<and> sleep_events evs = [])"
  proof
    assume "w' = w"
    then show ?thesis by (simp add: sleep_events_def)
  next
    assume "\<exists>h f c''. fetch_host_profile_fields E h c w = (f, c'', w')"
    then obtain h f c'' where "fetch_host_profile_fields E h c w = (f, c'', w')"
      by blast
    from fetch_profile_frame[OF this] show ?thesis by blast
  qed
  then show "processed_ids_file w' = processed_ids_file w"
    and "csv_file w' = csv_file w"
    and "\<exists>evs. trace w' = trace w @ evs \<and> sleep_events evs = []"
    by blast+
qed


section \<open>One loop iteration\<close>

lemma retry_3_2_cases:
  "retry_on_failure 3 2 func =
     (case func 0 of
        Inr v \<Rightarrow> (Returned v, [Invoked])
      | Inl e0 \<Rightarrow>
          (case func 1 of
             Inr v \<Rightarrow> (Returned v, [Invoked, Slept 2, Invoked])
           | Inl e1 \<Rightarrow>
               (case func 2 of
                  Inr v \<Rightarrow> (Returned v, [Invoked, Slept 2, Invoked, Slept 4, Invoked])
                | Inl e2 \<Rightarrow> (Raised e2, [Invoked, Slept 2, Invoked, Slept 4, Invoked]))))"
  by (simp add: retry_on_failure_def upt_rec numeral_2_eq_2 numeral_3_eq_3 split: sum.splits)

lemma retry_3_2_never_none: "fst (retry_on_failure 3 2 func) \<noteq> ReturnedNone"
  by (simp add: retry_3_2_cases split: sum.splits)

lemma retry_3_2_invoked: "Invoked \<in> set (snd (retry_on_failure 3 2 func))"
  by (simp add: retry_3_2_cases split: sum.splits)

lemma sleep_events_append [simp]:
  "sleep_events (a @ b) = sleep_events a @ sleep_events b"
  by (simp add: sleep_events_def)

lemma sleep_events_retry:
  "sleep_events (map (retry_event r) tr) = map BackoffSleep (sleeps tr)"
  by (induction tr rule: sleeps.induct) (simp_all add: sleep_events_def retry_event_def)

lemma get_listing_details_eq:
  "get_listing_details E r w =
     (fst (retry_on_failure 3 2 (api_get_details E r)),
      w\<lparr>trace := trace w @ map (retry_event r) (snd (retry_on_failure 3 2 (api_get_details E r)))\<rparr>)"
  by (simp add: get_listing_details_def split: prod.splits)

lemma process_listing_props:
  assumes "process_listing E r (records, c, w) = (records', c', w')"
  shows "csv_file w' = csv_file w"
    and "sleep_events (trace w') = sleep_events (trace w) @ listing_sleeps E r"
    and "(records' = records \<and> processed_ids_file w' = processed_ids_file w)
         \<or> (\<not> fetch_fails E r \<and> (\<exists>rec. records' = records @ [rec])
             \<and> log_text w' = log_text w @ r @ [CHR 0x0A])"
    and "fetch_fails E r \<Longrightarrow> records' = records \<and> processed_ids_file w' = processed_ids_file w"
    and "\<exists>evs. trace w' = trace w @ evs \<and> DetailsRequest r \<in> set evs"
proof -
  let ?R = "retry_on_failure 3 2 (api_get_details E r)"
  let ?w1 = "w\<lparr>trace := trace w @ map (retry_event r) (snd ?R)\<rparr>"
  have req: "DetailsRequest r \<in> set (map (retry_event r) (snd ?R))"
    using retry_3_2_invoked[of "api_get_details E r"]
    by (force simp: retry_event_def)
  have w1: "csv_file ?w1 = csv_file w" "processed_ids_file ?w1 = processed_ids_file w"
      "log_text ?w1 = log_text w"
      "sleep_events (trace ?w1) = sleep_events (trace w) @ map BackoffSleep (sleeps (snd ?R))"
    by (simp_all add: sleep_events_retry log_text_def)
  have all: "csv_file w' = csv_file w
      \<and> sleep_events (trace w') = sleep_events (trace w) @ listing_sleeps E r
      \<and> ((records' = records \<and> processed_ids_file w' = processed_ids_file w)
         \<or> (\<not> fetch_fails E r \<and> (\<exists>rec. records' = records @ [rec])
             \<and> log_text w' = log_text w @ r @ [CHR 0x0A]))
      \<and> (fetch_fails E r \<longrightarrow> records' = records \<and> processed_ids_file w' = processed_ids_file w)
      \<and> (\<exists>evs. trace w' = trace w @ evs \<and> DetailsRequest r \<in> set evs)"
  proof (cases "fst ?R")
    case (Raised e)
    with assms have "records' = records" "w' = emit DelaySleep ?w1"
      by (simp_all add: process_listing_def get_listing_details_eq)
    with Raised w1 req show ?thesis
      by (simp add: listing_sleeps_def payload_empty_def fetch_fails_def sleep_events_def)
  next
    case ReturnedNone
    with retry_3_2_never_none show ?thesis by blast
  next
    case (Returned details)
    show ?thesis
    proof (cases "py_truthy details")
      case False
      with Returned assms have "records' = records" "w' = ?w1"
        by (simp_all add: process_listing_def get_listing_details_eq)
      with Returned False w1 req show ?thesis
        by (simp add: listing_sleeps_def payload_empty_def fetch_fails_def)
    next
      case True
      obtain res c2 w2 where ex: "extract_listing_data E r details c ?w1 = (res, c2, w2)"
        by (cases "extract_listing_data E r details c ?w1") auto
      from extract_frame[OF ex] obtain evs where
        w2: "processed_ids_file w2 = processed_ids_file ?w1" "csv_file w2 = csv_file ?w1"
          "trace w2 = trace ?w1 @ evs" "sleep_events evs = []"
        by blast
      have lt: "log_text w2 = log_text w"
        using w2(1) by (simp add: log_text_def)
      have nf: "\<not> fetch_fails E r" "\<not> payload_empty E r"
        using Returned True by (simp_all add: fetch_fails_def payload_empty_def)
      show ?thesis
      proof (cases res)
        case (Inl e)
        with Returned True ex assms have "records' = records" "w' = emit DelaySleep w2"
          by (simp_all add: process_listing_def get_listing_details_eq)
        with w1 w2 nf req show ?thesis
          by (simp add: listing_sleeps_def sleep_events_def)
      next
        case (Inr rec)
        with Returned True ex assms have
          "records' = records @ [rec]" "w' = emit DelaySleep (save_processed_id r w2)"
          by (simp_all add: process_listing_def get_listing_details_eq)
        with w1 w2 nf req lt show ?thesis
          by (simp add: listing_sleeps_def sleep_events_def)
      qed
    qed
  qed
  then show "csv_file w' = csv_file w"
    and "sleep_events (trace w') = sleep_events (trace w) @ listing_sleeps E r"
    and "(records' = records \<and> processed_ids_file w' = processed_ids_file w)
         \<or> (\<not> fetch_fails E r \<and> (\<exists>rec. records' = records @ [rec])
             \<and> log_text w' = log_text w @ r @ [CHR 0x0A])"
    and "fetch_fails E r \<Longrightarrow> records' = records \<and> processed_ids_file w' = processed_ids_file w"
    and "\<exists>evs. trace w' = trace w @ evs \<and> DetailsRequest r \<in> set evs"
    by blast+
qed


lemma extract_row_id:
  assumes "extract_listing_data E r d c w = (Inr rec, c', w')"
  shows "row_room_id rec = Some (PStr r)"
proof -
  from assms obtain t lc h vs where "listing_row r t lc h vs = Inr rec"
    by (auto simp: extract_listing_data_def Let_def split: sum.splits prod.splits)
  then show ?thesis
    by (auto simp: listing_row_def row_room_id_def split: list.splits)
qed

lemma process_listing_rows:
  assumes "process_listing E r (records, c, w) = (records', c', w')"
  shows "set records' \<subseteq> set records \<union> {rec. row_room_id rec = Some (PStr r) \<and> \<not> fetch_fails E r}"
proof -
  let ?R = "retry_on_failure 3 2 (api_get_details E r)"
  show ?thesis
  proof (cases "fst ?R")
    case (Returned details)
    show ?thesis
    proof (cases "py_truthy details")
      case True
      let ?w1 = "w\<lparr>trace := trace w @ map (retry_event r) (snd ?R)\<rparr>"
      obtain res c2 w2 where ex: "extract_listing_data E r details c ?w1 = (res, c2, w2)"
        by (cases "extract_listing_data E r details c ?w1") auto
      have nf: "\<not> fetch_fails E r"
        using Returned True by (simp add: fetch_fails_def)
      show ?thesis
      proof (cases res)
        case (Inl e)
        with Returned True ex assms show ?thesis
          by (auto simp: process_listing_def get_listing_details_eq)
      next
        case (Inr rec)
        with ex have "row_room_id rec = Some (PStr r)"
          using extract_row_id by blast
        moreover from Inr Returned True ex assms have "records' = records @ [rec]"
          by (simp add: process_listing_def get_listing_details_eq)
        ultimately show ?thesis using nf by auto
      qed
    next
      case False
      with Returned assms show ?thesis
        by (auto simp: process_listing_def get_listing_details_eq)
    qed
  qed (use assms in \<open>auto simp: process_listing_def get_listing_details_eq\<close>)
qed

section \<open>The loop\<close>

lemma process_listings_append:
  "process_listings E (xs @ ys) st = process_listings E ys (process_listings E xs st)"
  by (induction xs arbitrary: st) auto

lemma log_entries_append [simp]: "log_entries (a @ b) = log_entries a @ log_entries b"
  by (simp add: log_entries_def)

lemma log_entries_single [simp]: "log_entries [r] = r @ [CHR 0x0A]"
  by (simp add: log_entries_def)

lemma log_entries_Nil [simp]: "log_entries [] = []"
  by (simp add: log_entries_def)

lemma process_listings_props:
  "process_listings E rs (records, c, w) = (records', c', w') \<Longrightarrow>
     csv_file w' = csv_file w
   \<and> sleep_events (trace w') = sleep_events (trace w) @ concat (map (listing_sleeps E) rs)
   \<and> (\<exists>ids. set ids \<subseteq> {r \<in> set rs. \<not> fetch_fails E r}
         \<and> log_text w' = log_text w @ log_entries ids
         \<and> length records' = length records + length ids)
   \<and> set records' \<subseteq> set records
        \<union> {rec. \<exists>r \<in> set rs. row_room_id rec = Some (PStr r) \<and> \<not> fetch_fails E r}
   \<and> (\<exists>evs. trace w' = trace w @ evs \<and> (\<forall>r \<in> set rs. DetailsRequest r \<in> set evs))"
proof (induction rs arbitrary: records c w)
  case Nil
  then show ?case by (auto intro: exI[of _ "[]"])
next
  case (Cons r rs)
  obtain r1 c1 w1 where one: "process_listing E r (records, c, w) = (r1, c1, w1)"
    by (cases "process_listing E r (records, c, w)") auto
  with Cons.prems have rest: "process_listings E rs (r1, c1, w1) = (records', c', w')"
    by simp
  note P = process_listing_props[OF one] process_listing_rows[OF one]
  note IH = Cons.IH[OF rest]
  from IH obtain ids where ids: "set ids \<subseteq> {r \<in> set rs. \<not> fetch_fails E r}"
      "log_text w' = log_text w1 @ log_entries ids"
      "length records' = length r1 + length ids"
    by blast
  from IH obtain evs where evs: "trace w' = trace w1 @ evs"
      "\<forall>r \<in> set rs. DetailsRequest r \<in> set evs"
    by blast
  from P(5) obtain evs1 where evs1: "trace w1 = trace w @ evs1" "DetailsRequest r \<in> set evs1"
    by blast
  have csv: "csv_file w' = csv_file w"
    using IH P(1) by simp
  have sl: "sleep_events (trace w') = sleep_events (trace w) @ concat (map (listing_sleeps E) (r # rs))"
    using IH P(2) by simp
  have lg: "\<exists>ids. set ids \<subseteq> {x \<in> set (r # rs). \<not> fetch_fails E x}
         \<and> log_text w' = log_text w @ log_entries ids
         \<and> length records' = length records + length ids"
    using P(3)
  proof
    assume a: "r1 = records \<and> processed_ids_file w1 = processed_ids_file w"
    then have "log_text w1 = log_text w" by (simp add: log_text_def)
    with a ids show ?thesis
      by (intro exI[of _ ids]) auto
  next
    assume b: "\<not> fetch_fails E r \<and> (\<exists>rec. r1 = records @ [rec])
        \<and> log_text w1 = log_text w @ r @ [CHR 0x0A]"
    with ids show ?thesis
      by (intro exI[of _ "r # ids"]) (auto simp: log_entries_def)
  qed
  have rows: "set records' \<subseteq> set records
        \<union> {rec. \<exists>x \<in> set (r # rs). row_room_id rec = Some (PStr x) \<and> \<not> fetch_fails E x}"
    using IH P(6) by auto
  have tr: "\<exists>evs. trace w' = trace w @ evs \<and> (\<forall>x \<in> set (r # rs). DetailsRequest x \<in> set evs)"
    using evs evs1 by (intro exI[of _ "evs1 @ evs"]) auto
  from csv sl lg rows tr show ?case by blast
qed


section \<open>The whole run\<close>

lemma write_csv_frame [simp]:
  "processed_ids_file (write_csv rs w) = processed_ids_file w"
  "trace (write_csv rs w) = trace w"
  "api_key_cache (write_csv rs w) = api_key_cache w"
  "csv_file (write_csv rs w) = Some rs"
  "log_text (write_csv rs w) = log_text w"
  "load_processed_ids (write_csv rs w) = load_processed_ids w"
  by (simp_all add: write_csv_def log_text_def load_processed_ids_def)

lemma enumeration_frame:
  assumes "get_room_ids_from_host E h w = (res, w')"
  shows "processed_ids_file w' = processed_ids_file w"
    and "csv_file w' = csv_file w"
    and "\<exists>evs. trace w' = trace w @ evs \<and> set evs \<subseteq> {ApiKeyRequest, UserListingsRequest h}"
proof -
  obtain k w1 where cr: "get_api_credentials E w = (k, w1)"
    by (cases "get_api_credentials E w")
  then have w1: "processed_ids_file w1 = processed_ids_file w" "csv_file w1 = csv_file w"
      "trace w1 = trace w \<or> trace w1 = trace w @ [ApiKeyRequest]"
    by (auto simp: get_api_credentials_def split: option.splits sum.splits)
  from assms cr have w': "w' = emit (UserListingsRequest h) w1"
    by (auto simp: get_room_ids_from_host_def Let_def split: sum.splits)
  show "processed_ids_file w' = processed_ids_file w" "csv_file w' = csv_file w"
    using w1 w' by simp_all
  from w1(3) show "\<exists>evs. trace w' = trace w @ evs \<and> set evs \<subseteq> {ApiKeyRequest, UserListingsRequest h}"
  proof
    assume "trace w1 = trace w"
    then show ?thesis using w' by (intro exI[of _ "[UserListingsRequest h]"]) simp
  next
    assume "trace w1 = trace w @ [ApiKeyRequest]"
    then show ?thesis using w' by (intro exI[of _ "[ApiKeyRequest, UserListingsRequest h]"]) simp
  qed
qed

lemma enumeration_result:
  "api_key_cache w = api_key_cache v \<Longrightarrow>
   fst (get_room_ids_from_host E h w) = fst (get_room_ids_from_host E h v)"
  by (simp add: get_room_ids_from_host_def get_api_credentials_def Let_def
      split: option.splits sum.splits prod.splits)

lemma main_completed:
  assumes "main E env w = (Completed, w1)"
  shows "\<exists>wa records c wb.
           get_room_ids_from_host E (resolved_host E env) (write_csv [] w)
             = (Inr (enumerated_ids E env w), wa)
         \<and> process_listings E (remaining_ids E env w) ([], Map.empty, wa) = (records, c, wb)
         \<and> w1 = write_csv records wb"
    and "py_strip (case env of None \<Rightarrow> [] | Some v \<Rightarrow> v) \<noteq> []"
    and "resolved_host E env \<noteq> []"
proof -
  let ?u = "py_strip (case env of None \<Rightarrow> [] | Some v \<Rightarrow> v)"
  from assms show u: "?u \<noteq> []"
    by (auto simp: main_def Let_def split: if_splits)
  from assms u show h: "resolved_host E env \<noteq> []"
    by (auto simp: main_def Let_def resolved_host_def split: if_splits)
  obtain res wa where en: "get_room_ids_from_host E (resolved_host E env) (write_csv [] w) = (res, wa)"
    by (cases "get_room_ids_from_host E (resolved_host E env) (write_csv [] w)")
  from assms u h en obtain ids where ids: "res = Inr ids"
    by (cases res) (auto simp: main_def Let_def resolved_host_def)
  with en have e: "enumerated_ids E env w = ids"
    by (simp add: enumerated_ids_def)
  obtain records c wb where
    pl: "process_listings E (remaining_ids E env w) ([], Map.empty, wa) = (records, c, wb)"
    by (cases "process_listings E (remaining_ids E env w) ([], Map.empty, wa)") auto
  have "w1 = write_csv records wb"
    using assms u h en ids pl e
    by (simp add: main_def Let_def resolved_host_def[symmetric] remaining_ids_def)
  with en ids e pl show "\<exists>wa records c wb.
           get_room_ids_from_host E (resolved_host E env) (write_csv [] w)
             = (Inr (enumerated_ids E env w), wa)
         \<and> process_listings E (remaining_ids E env w) ([], Map.empty, wa) = (records, c, wb)
         \<and> w1 = write_csv records wb"
    by blast
qed


section \<open>The sleeps of a run\<close>

lemma process_listings_facts:
  assumes "process_listings E rs (records, c, w) = (records', c', w')"
  shows "csv_file w' = csv_file w"
    and "sleep_events (trace w') = sleep_events (trace w) @ concat (map (listing_sleeps E) rs)"
    and "\<exists>ids. set ids \<subseteq> {r \<in> set rs. \<not> fetch_fails E r}
           \<and> log_text w' = log_text w @ log_entries ids
           \<and> length records' = length records + length ids"
    and "set records' \<subseteq> set records
           \<union> {rec. \<exists>r \<in> set rs. row_room_id rec = Some (PStr r) \<and> \<not> fetch_fails E r}"
    and "\<exists>evs. trace w' = trace w @ evs \<and> (\<forall>r \<in> set rs. DetailsRequest r \<in> set evs)"
proof -
  note P = process_listings_props[OF assms]
  from P show "csv_file w' = csv_file w"
    by (rule conjunct1)
  from P show "sleep_events (trace w') = sleep_events (trace w) @ concat (map (listing_sleeps E) rs)"
    by (rule conjunct2[THEN conjunct1])
  from P show "\<exists>ids. set ids \<subseteq> {r \<in> set rs. \<not> fetch_fails E r}
           \<and> log_text w' = log_text w @ log_entries ids
           \<and> length records' = length records + length ids"
    by (rule conjunct2[THEN conjunct2, THEN conjunct1])
  from P show "set records' \<subseteq> set records
           \<union> {rec. \<exists>r \<in> set rs. row_room_id rec = Some (PStr r) \<and> \<not> fetch_fails E r}"
    by (rule conjunct2[THEN conjunct2, THEN conjunct2, THEN conjunct1])
  from P show "\<exists>evs. trace w' = trace w @ evs \<and> (\<forall>r \<in> set rs. DetailsRequest r \<in> set evs)"
    by (rule conjunct2[THEN conjunct2, THEN conjunct2, THEN conjunct2])
qed

lemma listing_sleeps_cases:
  "(fetch_raises E r \<longrightarrow> listing_sleeps E r = [BackoffSleep 2, BackoffSleep 4, DelaySleep])
   \<and> (payload_empty E r \<longrightarrow> DelaySleep \<notin> set (listing_sleeps E r))
   \<and> (\<not> fetch_fails E r \<longrightarrow>
        listing_sleeps E r
          = map BackoffSleep (sleeps (snd (retry_on_failure 3 2 (api_get_details E r))))
            @ [DelaySleep])"
proof -
  let ?f = "api_get_details E r"
  show ?thesis
    by (cases "?f 0"; cases "?f 1"; cases "?f 2")
      (simp_all add: listing_sleeps_def fetch_raises_def payload_empty_def fetch_fails_def
        retry_3_2_cases)
qed

text \<open>
  Claim C9 (suspension points), as amended. In a run that completes, the sleeps are, in
  order, those of the remaining identifiers one after the other and no others: for each
  identifier the backoffs of the retry wrapper between its failed attempts, then the
  inter-request pause. The pause is taken after a listing that was processed and also
  after one whose fetch raised (2, 4, then the pause); it is not taken after an empty
  or absent payload.
\<close>

theorem suspension_points:
  assumes run: "main E env w = (Completed, w1)"
  shows "sleep_events (trace w1)
           = sleep_events (trace w) @ concat (map (listing_sleeps E) (remaining_ids E env w))
       \<and> (\<forall>r. (fetch_raises E r \<longrightarrow>
                  listing_sleeps E r = [BackoffSleep 2, BackoffSleep 4, DelaySleep])
             \<and> (payload_empty E r \<longrightarrow> DelaySleep \<notin> set (listing_sleeps E r))
             \<and> (\<not> fetch_fails E r \<longrightarrow>
                  listing_sleeps E r
                    = map BackoffSleep (sleeps (snd (retry_on_failure 3 2 (api_get_details E r))))
                      @ [DelaySleep]))"
proof -
  from main_completed(1)[OF run] obtain wa records c wb where
    en: "get_room_ids_from_host E (resolved_host E env) (write_csv [] w)
           = (Inr (enumerated_ids E env w), wa)"
    and pl: "process_listings E (remaining_ids E env w) ([], Map.empty, wa) = (records, c, wb)"
    and w1: "w1 = write_csv records wb"
    by blast
  from enumeration_frame(3)[OF en] obtain evs where
    "trace wa = trace (write_csv [] w) @ evs
     \<and> set evs \<subseteq> {ApiKeyRequest, UserListingsRequest (resolved_host E env)}" ..
  then have tr: "trace wa = trace w @ evs"
    and evs: "set evs \<subseteq> {ApiKeyRequest, UserListingsRequest (resolved_host E env)}"
    by simp_all
  have "\<forall>ev \<in> set evs. \<not> is_sleep ev"
  proof
    fix ev assume "ev \<in> set evs"
    with evs have "ev = ApiKeyRequest \<or> ev = UserListingsRequest (resolved_host E env)"
      by blast
    then show "\<not> is_sleep ev" by auto
  qed
  then have "sleep_events evs = []"
    by (simp add: sleep_events_def filter_empty_conv)
  with tr have s1: "sleep_events (trace wa) = sleep_events (trace w)"
    by simp
  have s2: "sleep_events (trace wb)
      = sleep_events (trace wa) @ concat (map (listing_sleeps E) (remaining_ids E env w))"
    by (rule process_listings_facts(2)[OF pl])
  have "sleep_events (trace w1)
      = sleep_events (trace w) @ concat (map (listing_sleeps E) (remaining_ids E env w))"
    using s1 s2 by (simp add: w1)
  moreover note listing_sleeps_cases
  ultimately show ?thesis by blast
qed

lemma sample_sleeps_42:
  "fst (main (sample_externals three_listings failing_42) (Some ''12345678'') initial_world)
     = Completed"
  by code_simp

theorem suspension_points_witness:
  "sleep_events (trace (snd (main (sample_externals three_listings failing_42)
                               (Some ''12345678'') initial_world)))
     = [DelaySleep, BackoffSleep 2, BackoffSleep 4, DelaySleep, DelaySleep]"
proof -
  let ?E = "sample_externals three_listings failing_42"
  let ?run = "main ?E (Some ''12345678'') initial_world"
  have c: "?run = (Completed, snd ?run)"
    using sample_sleeps_42 by (simp add: prod_eq_iff)
  have v: "sleep_events (trace initial_world)
        @ concat (map (listing_sleeps ?E) (remaining_ids ?E (Some ''12345678'') initial_world))
      = [DelaySleep, BackoffSleep 2, BackoffSleep 4, DelaySleep, DelaySleep]"
    by code_simp
  from suspension_points[OF c] show ?thesis
    unfolding v by blast
qed

text \<open>The pause after a failed fetch: the three attempts for room 42 raise, and the
  iteration still ends with the inter-request pause.\<close>

theorem delay_after_failed_fetch:
  "fetch_raises (sample_externals three_listings failing_42) ''42''
   \<and> trace (snd (snd (process_listing (sample_externals three_listings failing_42) ''42''
                        ([], Map.empty, initial_world))))
     = [DetailsRequest ''42'', BackoffSleep 2, DetailsRequest ''42'', BackoffSleep 4,
        DetailsRequest ''42'', DelaySleep]"
  by code_simp


section \<open>The progress log read back\<close>

lemma load_via_text:
  "load_processed_ids w = set (filter (\<lambda>l. l \<noteq> []) (map py_strip (file_lines [] (log_text w))))"
  by (simp add: load_processed_ids_def log_text_def split: option.splits)

lemma file_lines_entry:
  "CHR 0x0A \<notin> set r \<Longrightarrow> CHR 0x0D \<notin> set r \<Longrightarrow> file_lines cur (r @ [CHR 0x0A]) = [cur @ r]"
  by (induction r arbitrary: cur) auto

lemma file_lines_after_break:
  "t \<noteq> [] \<Longrightarrow> last t = CHR 0x0A \<or> last t = CHR 0x0D \<Longrightarrow>
   file_lines cur (t @ s) = file_lines cur t @ file_lines [] s"
proof (induction t arbitrary: cur)
  case Nil
  then show ?case by simp
next
  case (Cons c t)
  show ?case
  proof (cases "t = []")
    case True
    with Cons.prems show ?thesis by auto
  next
    case False
    with Cons.prems have "last t = CHR 0x0A \<or> last t = CHR 0x0D" by simp
    from Cons.IH[OF False this] show ?thesis by simp
  qed
qed

lemma file_lines_terminated:
  "log_terminated t \<Longrightarrow> file_lines [] (t @ s) = file_lines [] t @ file_lines [] s"
  using file_lines_after_break[of t "[]" s]
  by (cases "t = []") (auto simp: log_terminated_def)

lemma log_terminated_entries:
  "log_terminated t \<Longrightarrow> log_terminated (t @ log_entries ids)"
  by (induction ids rule: rev_induct) (simp_all add: log_terminated_def log_entries_def)

lemma file_lines_entries:
  "log_terminated t \<Longrightarrow> \<forall>r \<in> set ids. CHR 0x0A \<notin> set r \<and> CHR 0x0D \<notin> set r \<Longrightarrow>
   file_lines [] (t @ log_entries ids) = file_lines [] t @ ids"
proof (induction ids rule: rev_induct)
  case Nil
  then show ?case by simp
next
  case (snoc r ids)
  have tm: "log_terminated (t @ log_entries ids)"
    using snoc.prems(1) by (rule log_terminated_entries)
  have "file_lines [] (t @ log_entries (ids @ [r]))
      = file_lines [] ((t @ log_entries ids) @ (r @ [CHR 0x0A]))"
    by simp
  also have "\<dots> = file_lines [] (t @ log_entries ids) @ file_lines [] (r @ [CHR 0x0A])"
    using tm by (rule file_lines_terminated)
  also have "\<dots> = (file_lines [] t @ ids) @ [r]"
    using snoc by (simp add: file_lines_entry)
  finally show ?case by simp
qed

lemma load_after_entries:
  assumes "log_terminated (log_text w)"
    and "\<forall>r \<in> set ids. log_safe r"
    and "log_text w' = log_text w @ log_entries ids"
  shows "load_processed_ids w' = load_processed_ids w \<union> set ids"
proof -
  have lines: "file_lines [] (log_text w') = file_lines [] (log_text w) @ ids"
    unfolding assms(3) using assms(1,2) by (intro file_lines_entries) (auto simp: log_safe_def)
  have "filter (\<lambda>l. l \<noteq> []) (map py_strip ids) = ids"
    using assms(2) by (induction ids) (auto simp: log_safe_def)
  then show ?thesis
    by (simp add: load_via_text lines)
qed


section \<open>Running again\<close>

lemma restart_frame [simp]:
  "processed_ids_file (restart w) = processed_ids_file w"
  "csv_file (restart w) = csv_file w"
  "api_key_cache (restart w) = None"
  "trace (restart w) = []"
  "log_text (restart w) = log_text w"
  by (simp_all add: restart_def log_text_def)

lemma main_nothing_remaining:
  assumes url: "py_strip (case env of None \<Rightarrow> [] | Some v \<Rightarrow> v) \<noteq> []"
    and host: "resolved_host E env \<noteq> []"
    and en: "get_room_ids_from_host E (resolved_host E env) (write_csv [] w) = (Inr ids, wa)"
    and none: "filter (\<lambda>rid. rid \<notin> load_processed_ids w) ids = []"
  shows "main E env w = (Completed, write_csv [] wa)"
  using assms
  by (simp add: main_def Let_def resolved_host_def[symmetric])

text \<open>
  Claim C1 (re-run idempotence), as amended. Let a first run, started in a new process,
  complete and append every remaining identifier to the progress log. If the log was
  empty or ended with a line break before that run, and every remaining identifier is
  non-empty, has no whitespace at either end and no line break inside (every decimal
  string is such), then a second run in a new process, with the same marketplace
  answers and the log as the first run left it, completes with nothing remaining: it
  fetches no detail, leaves the log as it is and writes a table of zero rows.
\<close>

theorem rerun_idempotent:
  assumes fresh: "api_key_cache w = None"
    and run: "main E env w = (Completed, w1)"
    and marked: "log_text w1 = log_text w @ log_entries (remaining_ids E env w)"
    and tm: "log_terminated (log_text w)"
    and safe: "\<forall>r \<in> set (remaining_ids E env w). log_safe r"
  shows "\<exists>w2. main E env (restart w1) = (Completed, w2)
           \<and> remaining_ids E env (restart w1) = []
           \<and> (\<forall>r. DetailsRequest r \<notin> set (trace w2))
           \<and> processed_ids_file w2 = processed_ids_file w1
           \<and> csv_file w2 = Some []"
proof -
  let ?h = "resolved_host E env"
  let ?v = "restart w1"
  note url = main_completed(2)[OF run] and host = main_completed(3)[OF run]
  from main_completed(1)[OF run] obtain wa where
    en: "get_room_ids_from_host E ?h (write_csv [] w) = (Inr (enumerated_ids E env w), wa)"
    by blast
  have key: "api_key_cache (write_csv [] ?v) = api_key_cache (write_csv [] w)"
    using fresh by simp
  obtain res wa2 where en2: "get_room_ids_from_host E ?h (write_csv [] ?v) = (res, wa2)"
    by (cases "get_room_ids_from_host E ?h (write_csv [] ?v)")
  have "res = Inr (enumerated_ids E env w)"
    using enumeration_result[OF key, of E ?h] en en2 by simp
  with en2 have en2': "get_room_ids_from_host E ?h (write_csv [] ?v)
      = (Inr (enumerated_ids E env w), wa2)"
    by simp
  then have same: "enumerated_ids E env ?v = enumerated_ids E env w"
    by (simp add: enumerated_ids_def)
  have ld: "load_processed_ids ?v = load_processed_ids w \<union> set (remaining_ids E env w)"
    using tm safe marked by (intro load_after_entries) simp_all
  have none: "filter (\<lambda>rid. rid \<notin> load_processed_ids ?v) (enumerated_ids E env w) = []"
    unfolding ld by (auto simp: filter_empty_conv remaining_ids_def)
  then have rem: "remaining_ids E env ?v = []"
    by (simp add: remaining_ids_def same)
  have m: "main E env ?v = (Completed, write_csv [] wa2)"
    using url host en2' none by (rule main_nothing_remaining)
  from enumeration_frame(3)[OF en2'] obtain evs where
    "trace wa2 = trace (write_csv [] ?v) @ evs
     \<and> set evs \<subseteq> {ApiKeyRequest, UserListingsRequest ?h}" ..
  then have tr: "trace wa2 = evs" and evs: "set evs \<subseteq> {ApiKeyRequest, UserListingsRequest ?h}"
    by simp_all
  have nodet: "\<forall>r. DetailsRequest r \<notin> set (trace (write_csv [] wa2))"
    using tr evs by auto
  have lg: "processed_ids_file (write_csv [] wa2) = processed_ids_file w1"
    using enumeration_frame(1)[OF en2'] by simp
  have csv: "csv_file (write_csv [] wa2) = Some []"
    by simp
  from m rem nodet lg csv show ?thesis by blast
qed


lemma sample_first_run:
  "api_key_cache initial_world = None
   \<and> fst (main (sample_externals three_listings always_sample) (Some ''12345678'') initial_world)
       = Completed
   \<and> log_text (snd (main (sample_externals three_listings always_sample) (Some ''12345678'')
                       initial_world))
       = log_text initial_world
         @ log_entries (remaining_ids (sample_externals three_listings always_sample)
                          (Some ''12345678'') initial_world)
   \<and> log_terminated (log_text initial_world)
   \<and> (\<forall>r \<in> set (remaining_ids (sample_externals three_listings always_sample)
                     (Some ''12345678'') initial_world). log_safe r)"
  by code_simp

theorem rerun_idempotent_witness:
  "remaining_ids (sample_externals three_listings always_sample) (Some ''12345678'') initial_world
     = [''41'', ''42'', ''43'']
   \<and> (\<exists>w2. main (sample_externals three_listings always_sample) (Some ''12345678'')
              (restart (snd (main (sample_externals three_listings always_sample)
                               (Some ''12345678'') initial_world)))
            = (Completed, w2)
          \<and> (\<forall>r. DetailsRequest r \<notin> set (trace w2))
          \<and> processed_ids_file w2 = Some ''41\<newline>42\<newline>43\<newline>''
          \<and> csv_file w2 = Some [])"
proof -
  let ?E = "sample_externals three_listings always_sample"
  let ?env = "Some ''12345678''"
  let ?run = "main ?E ?env initial_world"
  have c: "?run = (Completed, snd ?run)"
    using sample_first_run by (simp add: prod_eq_iff)
  have r: "remaining_ids ?E ?env initial_world = [''41'', ''42'', ''43'']"
    by code_simp
  have l: "processed_ids_file (snd ?run) = Some ''41\<newline>42\<newline>43\<newline>''"
    by code_simp
  from sample_first_run have h:
    "api_key_cache initial_world = None"
    "log_text (snd ?run) = log_text initial_world @ log_entries (remaining_ids ?E ?env initial_world)"
    "log_terminated (log_text initial_world)"
    "\<forall>r \<in> set (remaining_ids ?E ?env initial_world). log_safe r"
    by simp_all
  from rerun_idempotent[OF h(1) c h(2) h(3) h(4)] r l show ?thesis
    by auto
qed

text \<open>
  Without the two conditions the second run processes a listing again. With the log
  \<^verbatim>\<open>7\<close> (no line break at its end) the entry for \<^verbatim>\<open>5\<close> is appended to that line and
  read back as \<^verbatim>\<open>75\<close>; an identifier written with a leading blank is read back
  without it. In both cases the first run completes and logs every enumerated
  identifier, and the table of the second run has a row.
\<close>

theorem rerun_reprocesses:
  "fst (main (sample_externals (one_listing ''5'') always_sample) (Some ''12345678'')
          unterminated_log_world) = Completed
   \<and> log_text (snd (main (sample_externals (one_listing ''5'') always_sample) (Some ''12345678'')
                       unterminated_log_world))
       = log_text unterminated_log_world
         @ log_entries (enumerated_ids (sample_externals (one_listing ''5'') always_sample)
                          (Some ''12345678'') unterminated_log_world)
   \<and> map row_room_id
         (table_rows (snd (main (sample_externals (one_listing ''5'') always_sample)
                   (Some ''12345678'')
                   (restart (snd (main (sample_externals (one_listing ''5'') always_sample)
                                    (Some ''12345678'') unterminated_log_world))))))
       = [Some (PStr ''5'')]
   \<and> fst (main (sample_externals (one_listing '' 5'') always_sample) (Some ''12345678'')
            initial_world) = Completed
   \<and> log_text (snd (main (sample_externals (one_listing '' 5'') always_sample) (Some ''12345678'')
                       initial_world))
       = log_text initial_world
         @ log_entries (enumerated_ids (sample_externals (one_listing '' 5'') always_sample)
                          (Some ''12345678'') initial_world)
   \<and> map row_room_id
         (table_rows (snd (main (sample_externals (one_listing '' 5'') always_sample)
                   (Some ''12345678'')
                   (restart (snd (main (sample_externals (one_listing '' 5'') always_sample)
                                    (Some ''12345678'') initial_world))))))
       = [Some (PStr '' 5'')]"
  by code_simp


section \<open>The host identifier of a payload\<close>

lemma set_field_keys [simp]: "map fst (set_field k v r) = map fst r"
  by (induction r) (auto simp: set_field_def)

lemma joined_fields_keys [simp]: "map fst (joined_fields E created f) = map fst f"
  by (simp add: joined_fields_def split: pyval.splits sum.splits)

lemma profile_of_response_keys:
  "map fst (fst (profile_of_response E response f)) = map fst f"
  by (simp add: profile_of_response_def Let_def split: sum.splits)

lemma fetch_profile_keys:
  assumes "fetch_host_profile_fields E h c w = (f, c', w')"
    and "\<forall>g. c h = Some g \<longrightarrow> profile_keys g"
  shows "profile_keys f"
proof (cases "h = []")
  case True
  with assms show ?thesis
    by (simp add: fetch_host_profile_fields_def profile_keys_def)
next
  case False
  show ?thesis
  proof (cases "c h")
    case (Some g)
    with False assms show ?thesis
      by (simp add: fetch_host_profile_fields_def)
  next
    case None
    obtain k w1 where cr: "get_api_credentials E w = (k, w1)"
      by (cases "get_api_credentials E w")
    show ?thesis
    proof (cases "api_get_host_details E k h")
      case (Inl e)
      with False None cr assms show ?thesis
        by (auto simp: fetch_host_profile_fields_def Let_def profile_keys_def)
    next
      case (Inr response)
      obtain f1 raised where pr: "profile_of_response E response empty_profile = (f1, raised)"
        by (cases "profile_of_response E response empty_profile")
      then have "map fst f1 = map fst empty_profile"
        using profile_of_response_keys[of E response empty_profile] by simp
      with False None cr Inr pr assms show ?thesis
        by (auto simp: fetch_host_profile_fields_def Let_def profile_keys_def split: if_splits)
    qed
  qed
qed

lemma fetch_profile_miss:
  assumes "fetch_host_profile_fields E h c w = (f, c', w')" and "h \<noteq> []" and "c h = None"
  shows "c' h = Some f" and "HostDetailsRequest h \<in> set (trace w')"
proof -
  obtain k w1 where cr: "get_api_credentials E w = (k, w1)"
    by (cases "get_api_credentials E w")
  from assms cr have c': "c' = c(h \<mapsto> f)"
    by (auto simp: fetch_host_profile_fields_def Let_def split: prod.splits)
  then show "c' h = Some f" by simp
  from assms cr have
    "w' = emit (HostDetailsRequest h) w1
     \<or> w' = emit (UserListingsRequest h) (emit (HostDetailsRequest h) w1)"
    by (auto simp: fetch_host_profile_fields_def Let_def
        split: option.splits sum.splits prod.splits if_splits)
  then show "HostDetailsRequest h \<in> set (trace w')"
    by auto
qed

lemma fetch_profile_hit:
  assumes "fetch_host_profile_fields E h c w = (f, c', w')" and "h \<noteq> []" and "c h = Some g"
  shows "c' h = Some f"
  using assms by (auto simp: fetch_host_profile_fields_def)

lemma host_field_values_ok:
  assumes "profile_keys f"
  shows "\<exists>a b c d e g. host_field_values f = Inr [a, b, c, d, e, g]
           \<and> map_of f ''host_name'' = Some a \<and> map_of f ''host_rating'' = Some b
           \<and> map_of f ''host_reviews_count'' = Some c \<and> map_of f ''host_joined_year'' = Some d
           \<and> map_of f ''host_years_active'' = Some e \<and> map_of f ''host_total_listings'' = Some g"
proof -
  from assms obtain a b c d e g where
    "f = [(''host_name'', a), (''host_rating'', b), (''host_reviews_count'', c),
          (''host_joined_year'', d), (''host_years_active'', e), (''host_total_listings'', g)]"
    by (auto simp: profile_keys_def empty_profile_def map_eq_Cons_conv)
  then show ?thesis
    by (simp add: host_field_values_def)
qed

lemma str_None: "py_str PNone = ''None''"
  by simp

text \<open>
  Claim C10 (null host identifier). Let the \<^verbatim>\<open>host\<close> entry of a detail payload be a dict
  whose \<^verbatim>\<open>id\<close> is \<^verbatim>\<open>None\<close>. Then the host identifier is the text \<^verbatim>\<open>None\<close>, the row has
  it as \<^verbatim>\<open>host_id\<close> and \<^verbatim>\<open>https://www.airbnb.com/users/show/None\<close> as
  \<^verbatim>\<open>host_profile_url\<close>, and the host columns of the row are those of the profile that
  \<^verbatim>\<open>fetch_host_profile_fields\<close> returns for the key \<^verbatim>\<open>None\<close>: that profile is in the
  cache under \<^verbatim>\<open>None\<close> afterwards, and when it was not there before, the host-details
  request for \<^verbatim>\<open>None\<close> has been sent. The empty identifier, by contrast, gets the empty
  profile with no request and no cache entry. (The cache is assumed to hold profiles
  with their six keys, as every cache that the program builds does.)
\<close>

theorem null_host_id:
  assumes host: "map_of kvs ''host'' = Some (PDict hkvs)"
    and idn: "map_of hkvs ''id'' = Some PNone"
    and cache: "\<forall>g. host_cache ''None'' = Some g \<longrightarrow> profile_keys g"
  shows "host_id_of (PDict hkvs) = ''None''
       \<and> (\<exists>row f host_cache' w'.
             extract_listing_data E room_id (PDict kvs) host_cache w = (Inr row, host_cache', w')
           \<and> fetch_host_profile_fields E ''None'' host_cache w = (f, host_cache', w')
           \<and> map_of row ''host_id'' = Some (PStr ''None'')
           \<and> map_of row ''host_profile_url''
               = Some (PStr ''https://www.airbnb.com/users/show/None'')
           \<and> map_of row ''host_name'' = map_of f ''host_name''
           \<and> map_of row ''host_rating'' = map_of f ''host_rating''
           \<and> map_of row ''host_reviews_count'' = map_of f ''host_reviews_count''
           \<and> map_of row ''host_joined_year'' = map_of f ''host_joined_year''
           \<and> map_of row ''host_years_active'' = map_of f ''host_years_active''
           \<and> map_of row ''host_total_listings_in_dubai'' = map_of f ''host_total_listings''
           \<and> host_cache' ''None'' = Some f
           \<and> (host_cache ''None'' = None \<longrightarrow>
                 HostDetailsRequest ''None'' \<in> set (trace w')
                 \<and> f = fst (fetch_host_profile_fields E ''None'' Map.empty w)))
       \<and> fetch_host_profile_fields E [] host_cache w = (empty_profile, host_cache, w)"
proof -
  have hid: "host_id_of (PDict hkvs) = ''None''"
    using idn by (simp add: host_id_of_def)
  obtain f c' w' where ft: "fetch_host_profile_fields E ''None'' host_cache w = (f, c', w')"
    by (cases "fetch_host_profile_fields E ''None'' host_cache w") auto
  have ne: "''None'' \<noteq> []" by simp
  from fetch_profile_keys[OF ft cache] host_field_values_ok obtain a b c d e g where
    vs: "host_field_values f = Inr [a, b, c, d, e, g]"
    and fs: "map_of f ''host_name'' = Some a" "map_of f ''host_rating'' = Some b"
      "map_of f ''host_reviews_count'' = Some c" "map_of f ''host_joined_year'' = Some d"
      "map_of f ''host_years_active'' = Some e" "map_of f ''host_total_listings'' = Some g"
    by blast
  define row where "row =
     [(''room_id'', PStr room_id),
      (''listing_url'', PStr (''https://www.airbnb.com/rooms/'' @ room_id)),
      (''listing_title'', (case map_of kvs ''title'' of Some v \<Rightarrow> v | None \<Rightarrow> PStr [])),
      (''license_code'',
         PStr (extract_license_code (case map_of kvs ''description'' of Some v \<Rightarrow> v | None \<Rightarrow> PStr []))),
      (''host_id'', PStr ''None''),
      (''host_name'', a),
      (''host_profile_url'', PStr ''https://www.airbnb.com/users/show/None''),
      (''host_rating'', b),
      (''host_reviews_count'', c),
      (''host_joined_year'', d),
      (''host_years_active'', e),
      (''host_total_listings_in_dubai'', g)]"
  have ex: "extract_listing_data E room_id (PDict kvs) host_cache w = (Inr row, c', w')"
    using host hid ft vs
    by (simp add: extract_listing_data_def Let_def listing_row_def row_def)
  have r1: "map_of row ''host_id'' = Some (PStr ''None'')"
    and r2: "map_of row ''host_profile_url'' = Some (PStr ''https://www.airbnb.com/users/show/None'')"
    and r3: "map_of row ''host_name'' = map_of f ''host_name''"
    and r4: "map_of row ''host_rating'' = map_of f ''host_rating''"
    and r5: "map_of row ''host_reviews_count'' = map_of f ''host_reviews_count''"
    and r6: "map_of row ''host_joined_year'' = map_of f ''host_joined_year''"
    and r7: "map_of row ''host_years_active'' = map_of f ''host_years_active''"
    and r8: "map_of row ''host_total_listings_in_dubai'' = map_of f ''host_total_listings''"
    by (simp_all add: row_def fs)
  have cf: "c' ''None'' = Some f"
  proof (cases "host_cache ''None''")
    case None
    from fetch_profile_miss(1)[OF ft ne None] show ?thesis .
  next
    case (Some g0)
    from fetch_profile_hit[OF ft ne Some] show ?thesis .
  qed
  have rq: "host_cache ''None'' = None \<longrightarrow>
      HostDetailsRequest ''None'' \<in> set (trace w')
      \<and> f = fst (fetch_host_profile_fields E ''None'' Map.empty w)"
  proof
    assume miss: "host_cache ''None'' = None"
    have "fst (fetch_host_profile_fields E ''None'' Map.empty w)
        = fst (fetch_host_profile_fields E ''None'' host_cache w)"
      using miss by (simp add: fetch_host_profile_fields_def Let_def split: prod.splits)
    with ft fetch_profile_miss(2)[OF ft ne miss]
    show "HostDetailsRequest ''None'' \<in> set (trace w')
      \<and> f = fst (fetch_host_profile_fields E ''None'' Map.empty w)"
      by simp
  qed
  have "\<exists>row f host_cache' w'.
             extract_listing_data E room_id (PDict kvs) host_cache w = (Inr row, host_cache', w')
           \<and> fetch_host_profile_fields E ''None'' host_cache w = (f, host_cache', w')
           \<and> map_of row ''host_id'' = Some (PStr ''None'')
           \<and> map_of row ''host_profile_url''
               = Some (PStr ''https://www.airbnb.com/users/show/None'')
           \<and> map_of row ''host_name'' = map_of f ''host_name''
           \<and> map_of row ''host_rating'' = map_of f ''host_rating''
           \<and> map_of row ''host_reviews_count'' = map_of f ''host_reviews_count''
           \<and> map_of row ''host_joined_year'' = map_of f ''host_joined_year''
           \<and> map_of row ''host_years_active'' = map_of f ''host_years_active''
           \<and> map_of row ''host_total_listings_in_dubai'' = map_of f ''host_total_listings''
           \<and> host_cache' ''None'' = Some f
           \<and> (host_cache ''None'' = None \<longrightarrow>
                 HostDetailsRequest ''None'' \<in> set (trace w')
                 \<and> f = fst (fetch_host_profile_fields E ''None'' Map.empty w))"
    by (intro exI[of _ row] exI[of _ f] exI[of _ c'] exI[of _ w'] conjI)
      (rule ex ft r1 r2 r3 r4 r5 r6 r7 r8 cf rq)+
  moreover have "fetch_host_profile_fields E [] host_cache w = (empty_profile, host_cache, w)"
    by (simp add: fetch_host_profile_fields_def)
  ultimately show ?thesis using hid by blast
qed

text \<open>With a marketplace that knows five listings of the host \<^verbatim>\<open>None\<close>, the count
  enters the row: the profile is the looked-up one, not the empty one.\<close>

theorem null_host_id_witness:
  "host_id_of (PDict [(''id'', PNone)]) = ''None''
   \<and> (\<exists>row host_cache' w'.
         extract_listing_data (sample_externals three_listings always_sample) ''41''
           (PDict [(''title'', PStr ''Flat''), (''host'', PDict [(''id'', PNone)])])
           Map.empty initial_world = (Inr row, host_cache', w')
       \<and> map_of row ''host_id'' = Some (PStr ''None'')
       \<and> map_of row ''host_profile_url'' = Some (PStr ''https://www.airbnb.com/users/show/None'')
       \<and> host_cache' ''None'' \<noteq> None
       \<and> HostDetailsRequest ''None'' \<in> set (trace w'))"
proof -
  have h: "map_of [(''title'', PStr ''Flat''), (''host'', PDict [(''id'', PNone)])] ''host''
      = Some (PDict [(''id'', PNone)])"
    "map_of [(''id'', PNone)] ''id'' = Some PNone"
    "\<forall>g. (Map.empty :: string \<rightharpoonup> row) ''None'' = Some g \<longrightarrow> profile_keys g"
    by simp_all
  from null_host_id[OF h, of "sample_externals three_listings always_sample" "''41''" initial_world]
  show ?thesis
    by auto
qed


section \<open>What each iteration does, exactly\<close>

lemma detail_requests_append [simp]:
  "detail_requests (a @ b) = detail_requests a @ detail_requests b"
  by (simp add: detail_requests_def)

lemma detail_requests_retry:
  "detail_requests (map (retry_event r) tr) = replicate (invocations tr) (DetailsRequest r)"
  by (induction tr rule: sleeps.induct)
    (simp_all add: detail_requests_def retry_event_def invocations_def)

lemma credentials_requests:
  assumes "get_api_credentials E w = (k, w')"
  shows "\<exists>evs. trace w' = trace w @ evs \<and> detail_requests evs = []"
  using assms
  by (auto simp: get_api_credentials_def detail_requests_def split: option.splits sum.splits)

lemma fetch_profile_requests:
  assumes "fetch_host_profile_fields E h c w = (f, c', w')"
  shows "\<exists>evs. trace w' = trace w @ evs \<and> detail_requests evs = []"
proof -
  obtain k w1 where cr: "get_api_credentials E w = (k, w1)"
    by (cases "get_api_credentials E w")
  from credentials_requests[OF cr] obtain evs where
    w1: "trace w1 = trace w @ evs" "detail_requests evs = []"
    by blast
  show ?thesis
  proof (cases "h = [] \<or> c h \<noteq> None")
    case True
    with assms have "w' = w"
      by (auto simp: fetch_host_profile_fields_def split: option.splits if_splits)
    then show ?thesis by (simp add: detail_requests_def)
  next
    case False
    with assms cr have
      "w' = emit (HostDetailsRequest h) w1
       \<or> w' = emit (UserListingsRequest h) (emit (HostDetailsRequest h) w1)"
      by (auto simp: fetch_host_profile_fields_def Let_def
          split: option.splits sum.splits prod.splits if_splits)
    then show ?thesis
      using w1 by (auto simp: detail_requests_def)
  qed
qed

lemma fetch_cache_ok:
  assumes "fetch_host_profile_fields E h c w = (f, c', w')" and "cache_ok c"
  shows "cache_ok c'" and "profile_keys f"
proof -
  from assms(2) have "\<forall>g. c h = Some g \<longrightarrow> profile_keys g"
    by (simp add: cache_ok_def)
  from fetch_profile_keys[OF assms(1) this] show pf: "profile_keys f" .
  have "c' = c \<or> c' = c(h \<mapsto> f)"
    using assms(1)
    by (auto simp: fetch_host_profile_fields_def Let_def split: option.splits prod.splits if_splits)
  with assms(2) pf show "cache_ok c'"
    by (auto simp: cache_ok_def split: if_splits)
qed

lemma extract_exact:
  assumes "extract_listing_data E r d c w = (res, c', w')" and "cache_ok c"
  shows "cache_ok c'"
    and "is_dict d \<Longrightarrow> \<exists>rec. res = Inr rec"
    and "\<not> is_dict d \<Longrightarrow> \<exists>e. res = Inl e"
    and "\<exists>evs. trace w' = trace w @ evs \<and> detail_requests evs = []"
proof -
  show "\<not> is_dict d \<Longrightarrow> \<exists>e. res = Inl e"
    using assms(1) by (cases d) (auto simp: extract_listing_data_def)
  show "cache_ok c'" "is_dict d \<Longrightarrow> \<exists>rec. res = Inr rec"
    "\<exists>evs. trace w' = trace w @ evs \<and> detail_requests evs = []"
  proof -
    have all: "cache_ok c' \<and> (is_dict d \<longrightarrow> (\<exists>rec. res = Inr rec))
        \<and> (\<exists>evs. trace w' = trace w @ evs \<and> detail_requests evs = [])"
    proof (cases d)
      case (PDict kvs)
      let ?host = "case map_of kvs ''host'' of Some v \<Rightarrow> v | None \<Rightarrow> PDict []"
      obtain f c2 w2 where ft: "fetch_host_profile_fields E (host_id_of ?host) c w = (f, c2, w2)"
        by (cases "fetch_host_profile_fields E (host_id_of ?host) c w") auto
      from fetch_cache_ok[OF ft assms(2)] have ok: "cache_ok c2" "profile_keys f"
        by simp_all
      from host_field_values_ok[OF ok(2)] obtain a b c0 d0 e g where
        vs: "host_field_values f = Inr [a, b, c0, d0, e, g]"
        by blast
      from assms(1) PDict ft vs have "c' = c2" "w' = w2" "\<exists>rec. res = Inr rec"
        by (auto simp: extract_listing_data_def Let_def listing_row_def)
      with ok fetch_profile_requests[OF ft] PDict show ?thesis
        by simp
    next
      case PNone
      with assms show ?thesis by (auto simp: extract_listing_data_def detail_requests_def)
    next
      case (PBool x)
      with assms show ?thesis by (auto simp: extract_listing_data_def detail_requests_def)
    next
      case (PInt x)
      with assms show ?thesis by (auto simp: extract_listing_data_def detail_requests_def)
    next
      case (PFloat x)
      with assms show ?thesis by (auto simp: extract_listing_data_def detail_requests_def)
    next
      case (PStr x)
      with assms show ?thesis by (auto simp: extract_listing_data_def detail_requests_def)
    next
      case (PList x)
      with assms show ?thesis by (auto simp: extract_listing_data_def detail_requests_def)
    qed
    then show "cache_ok c'" "is_dict d \<Longrightarrow> \<exists>rec. res = Inr rec"
      "\<exists>evs. trace w' = trace w @ evs \<and> detail_requests evs = []"
      by simp_all
  qed
qed


lemma process_listing_exact:
  assumes "process_listing E r (records, c, w) = (records', c', w')" and "cache_ok c"
  shows "cache_ok c'"
    and "detail_requests (trace w')
           = detail_requests (trace w) @ replicate (fetch_attempts E r) (DetailsRequest r)"
    and "processable E r \<Longrightarrow>
           (\<exists>rec. records' = records @ [rec] \<and> row_room_id rec = Some (PStr r))
           \<and> log_text w' = log_text w @ r @ [CHR 0x0A]"
    and "\<not> processable E r \<Longrightarrow>
           records' = records \<and> processed_ids_file w' = processed_ids_file w"
proof -
  let ?R = "retry_on_failure 3 2 (api_get_details E r)"
  let ?w1 = "w\<lparr>trace := trace w @ map (retry_event r) (snd ?R)\<rparr>"
  have w1: "processed_ids_file ?w1 = processed_ids_file w" "log_text ?w1 = log_text w"
      "detail_requests (trace ?w1)
         = detail_requests (trace w) @ replicate (fetch_attempts E r) (DetailsRequest r)"
    by (simp_all add: detail_requests_retry log_text_def fetch_attempts_def)
  have all: "cache_ok c'
      \<and> detail_requests (trace w')
           = detail_requests (trace w) @ replicate (fetch_attempts E r) (DetailsRequest r)
      \<and> (processable E r \<longrightarrow>
           (\<exists>rec. records' = records @ [rec] \<and> row_room_id rec = Some (PStr r))
           \<and> log_text w' = log_text w @ r @ [CHR 0x0A])
      \<and> (\<not> processable E r \<longrightarrow>
           records' = records \<and> processed_ids_file w' = processed_ids_file w)"
  proof (cases "fst ?R")
    case (Raised e)
    with assms have "records' = records" "c' = c" "w' = emit DelaySleep ?w1"
      by (simp_all add: process_listing_def get_listing_details_eq)
    with Raised w1 assms(2) show ?thesis
      by (simp add: processable_def detail_requests_def)
  next
    case ReturnedNone
    with retry_3_2_never_none show ?thesis by blast
  next
    case (Returned details)
    show ?thesis
    proof (cases "py_truthy details")
      case False
      with Returned assms have "records' = records" "c' = c" "w' = ?w1"
        by (simp_all add: process_listing_def get_listing_details_eq)
      with Returned False w1 assms(2) show ?thesis
        by (simp add: processable_def)
    next
      case True
      obtain res c2 w2 where ex: "extract_listing_data E r details c ?w1 = (res, c2, w2)"
        by (cases "extract_listing_data E r details c ?w1") auto
      note X = extract_exact[OF ex assms(2)]
      from X(4) obtain evs where
        "trace w2 = trace ?w1 @ evs \<and> detail_requests evs = []" ..
      then have dr: "detail_requests (trace w2) = detail_requests (trace ?w1)"
        by simp
      have lt: "log_text w2 = log_text w" "processed_ids_file w2 = processed_ids_file w"
        using extract_frame(1)[OF ex] by (simp_all add: log_text_def)
      show ?thesis
      proof (cases "is_dict details")
        case dict: True
        from X(2)[OF dict] obtain rec where rec: "res = Inr rec" ..
        with ex have rid: "row_room_id rec = Some (PStr r)"
          using extract_row_id by blast
        from rec Returned True ex assms have
          "records' = records @ [rec]" "c' = c2" "w' = emit DelaySleep (save_processed_id r w2)"
          by (simp_all add: process_listing_def get_listing_details_eq)
        with Returned True dict X(1) dr w1 lt rid show ?thesis
          by (simp add: processable_def detail_requests_def)
      next
        case nodict: False
        from X(3)[OF nodict] obtain e where "res = Inl e" ..
        with Returned True ex assms have
          "records' = records" "c' = c2" "w' = emit DelaySleep w2"
          by (simp_all add: process_listing_def get_listing_details_eq)
        with Returned True nodict X(1) dr w1 lt show ?thesis
          by (simp add: processable_def detail_requests_def)
      qed
    qed
  qed
  from all show "cache_ok c'"
    by (rule conjunct1)
  from all show "detail_requests (trace w')
           = detail_requests (trace w) @ replicate (fetch_attempts E r) (DetailsRequest r)"
    by (rule conjunct2[THEN conjunct1])
  from all show "processable E r \<Longrightarrow>
           (\<exists>rec. records' = records @ [rec] \<and> row_room_id rec = Some (PStr r))
           \<and> log_text w' = log_text w @ r @ [CHR 0x0A]"
    by simp
  from all show "\<not> processable E r \<Longrightarrow>
           records' = records \<and> processed_ids_file w' = processed_ids_file w"
    by simp
qed

lemma process_listings_exact:
  "process_listings E rs (records, c, w) = (records', c', w') \<Longrightarrow> cache_ok c \<Longrightarrow>
     map row_room_id records'
       = map row_room_id records @ map (\<lambda>r. Some (PStr r)) (filter (processable E) rs)
   \<and> log_text w' = log_text w @ log_entries (filter (processable E) rs)
   \<and> detail_requests (trace w')
       = detail_requests (trace w)
         @ concat (map (\<lambda>r. replicate (fetch_attempts E r) (DetailsRequest r)) rs)"
proof (induction rs arbitrary: records c w)
  case Nil
  then show ?case by simp
next
  case (Cons r rs)
  obtain r1 c1 w1 where one: "process_listing E r (records, c, w) = (r1, c1, w1)"
    by (cases "process_listing E r (records, c, w)") auto
  with Cons.prems(1) have rest: "process_listings E rs (r1, c1, w1) = (records', c', w')"
    by simp
  note P = process_listing_exact[OF one Cons.prems(2)]
  note IH = Cons.IH[OF rest P(1)]
  have rows1: "map row_room_id r1
      = map row_room_id records @ map (\<lambda>r. Some (PStr r)) (filter (processable E) [r])"
    and log1: "log_text w1 = log_text w @ log_entries (filter (processable E) [r])"
  proof -
    show "map row_room_id r1
      = map row_room_id records @ map (\<lambda>r. Some (PStr r)) (filter (processable E) [r])"
    proof (cases "processable E r")
      case True
      from P(3)[OF True] show ?thesis using True by auto
    next
      case False
      from P(4)[OF False] show ?thesis using False by simp
    qed
    show "log_text w1 = log_text w @ log_entries (filter (processable E) [r])"
    proof (cases "processable E r")
      case True
      from P(3)[OF True] show ?thesis using True by simp
    next
      case False
      from P(4)[OF False] show ?thesis using False by (simp add: log_text_def)
    qed
  qed
  have a: "map row_room_id records'
       = map row_room_id records @ map (\<lambda>r. Some (PStr r)) (filter (processable E) (r # rs))"
    using IH rows1 by simp
  have b: "log_text w' = log_text w @ log_entries (filter (processable E) (r # rs))"
    using IH log1 by (simp add: log_entries_def)
  have d: "detail_requests (trace w')
       = detail_requests (trace w)
         @ concat (map (\<lambda>r. replicate (fetch_attempts E r) (DetailsRequest r)) (r # rs))"
    using IH P(2) by simp
  from a b d show ?case by (intro conjI)
qed


section \<open>Failures do not stop the run\<close>

lemma resolved_host_url:
  "resolved_host E env \<noteq> [] \<Longrightarrow> py_strip (case env of None \<Rightarrow> [] | Some v \<Rightarrow> v) \<noteq> []"
  by (auto simp: resolved_host_def parse_host_id_from_url_def)

lemma main_completes:
  assumes host: "resolved_host E env \<noteq> []"
    and enum: "fst (get_room_ids_from_host E (resolved_host E env) (write_csv [] w)) = Inr ids"
  shows "\<exists>w1. main E env w = (Completed, w1)"
proof -
  obtain wa where
    en: "get_room_ids_from_host E (resolved_host E env) (write_csv [] w) = (Inr ids, wa)"
    using enum by (cases "get_room_ids_from_host E (resolved_host E env) (write_csv [] w)") auto
  obtain records c wb where
    "process_listings E (filter (\<lambda>rid. rid \<notin> load_processed_ids w) ids) ([], Map.empty, wa)
       = (records, c, wb)"
    by (cases "process_listings E (filter (\<lambda>rid. rid \<notin> load_processed_ids w) ids)
          ([], Map.empty, wa)") auto
  with resolved_host_url[OF host] host en have "main E env w = (Completed, write_csv records wb)"
    by (simp add: main_def Let_def resolved_host_def[symmetric])
  then show ?thesis ..
qed

lemma cache_ok_empty: "cache_ok Map.empty"
  by (simp add: cache_ok_def)

lemma fetch_fails_not_processable: "fetch_fails E x \<Longrightarrow> \<not> processable E x"
  by (auto simp: fetch_fails_def processable_def split: outcome.splits)

text \<open>
  Claim C2 (failure isolation), as amended. Let the host resolve and the enumeration
  return, and let \<open>x\<close> be a remaining identifier whose detail fetch raises after the last
  retry or returns an empty or absent payload. Then the run completes; the table has
  one row for each remaining identifier that can be processed, in enumeration order,
  and none for \<open>x\<close>; the log has grown by the entries of exactly those identifiers,
  \<open>x\<close> not among them; and the details have been requested for every remaining
  identifier in enumeration order, each as often as its retries ask, so that the ones
  after \<open>x\<close> are processed as if \<open>x\<close> had not failed. If moreover the log was empty or
  ended with a line break and the remaining identifiers are non-empty, without
  whitespace at either end and without line breaks, then \<open>x\<close> does not read back from
  the log as processed: the identifiers that do are the old ones and those processed.
\<close>

theorem failure_isolation:
  assumes host: "resolved_host E env \<noteq> []"
    and enum: "fst (get_room_ids_from_host E (resolved_host E env) (write_csv [] w)) = Inr ids"
    and x: "x \<in> set (remaining_ids E env w)"
    and fails: "fetch_fails E x"
  shows "\<exists>w1. main E env w = (Completed, w1)
           \<and> map row_room_id (table_rows w1)
               = map (\<lambda>r. Some (PStr r)) (filter (processable E) (remaining_ids E env w))
           \<and> (\<forall>rec \<in> set (table_rows w1). row_room_id rec \<noteq> Some (PStr x))
           \<and> log_text w1
               = log_text w @ log_entries (filter (processable E) (remaining_ids E env w))
           \<and> x \<notin> set (filter (processable E) (remaining_ids E env w))
           \<and> detail_requests (trace w1)
               = detail_requests (trace w)
                 @ concat (map (\<lambda>r. replicate (fetch_attempts E r) (DetailsRequest r))
                             (remaining_ids E env w))
           \<and> (log_terminated (log_text w) \<and> (\<forall>r \<in> set (remaining_ids E env w). log_safe r)
                \<longrightarrow> x \<notin> load_processed_ids w1
                    \<and> load_processed_ids w1
                        = load_processed_ids w
                          \<union> {r \<in> set (remaining_ids E env w). processable E r})"
proof -
  let ?rem = "remaining_ids E env w"
  let ?ok = "filter (processable E) ?rem"
  from main_completes[OF host enum] obtain w1 where run: "main E env w = (Completed, w1)" ..
  from main_completed(1)[OF run] obtain wa records c wb where
    en: "get_room_ids_from_host E (resolved_host E env) (write_csv [] w)
           = (Inr (enumerated_ids E env w), wa)"
    and pl: "process_listings E ?rem ([], Map.empty, wa) = (records, c, wb)"
    and w1: "w1 = write_csv records wb"
    by blast
  note P = process_listings_exact[OF pl cache_ok_empty]
  from P have rows: "map row_room_id records = map (\<lambda>r. Some (PStr r)) ?ok"
    by simp
  from P have lg0: "log_text wb = log_text wa @ log_entries ?ok"
    by simp
  from P have dr0: "detail_requests (trace wb)
      = detail_requests (trace wa)
        @ concat (map (\<lambda>r. replicate (fetch_attempts E r) (DetailsRequest r)) ?rem)"
    by simp
  from enumeration_frame(1)[OF en] have la: "log_text wa = log_text w"
    by (simp add: log_text_def)
  from enumeration_frame(3)[OF en] obtain evs where
    "trace wa = trace (write_csv [] w) @ evs
     \<and> set evs \<subseteq> {ApiKeyRequest, UserListingsRequest (resolved_host E env)}" ..
  then have tr: "trace wa = trace w @ evs"
    and evs: "set evs \<subseteq> {ApiKeyRequest, UserListingsRequest (resolved_host E env)}"
    by simp_all
  have "\<forall>ev \<in> set evs. \<not> is_details_request ev"
  proof
    fix ev assume "ev \<in> set evs"
    with evs have "ev = ApiKeyRequest \<or> ev = UserListingsRequest (resolved_host E env)"
      by blast
    then show "\<not> is_details_request ev" by auto
  qed
  then have "detail_requests evs = []"
    by (simp add: detail_requests_def filter_empty_conv)
  with tr have da: "detail_requests (trace wa) = detail_requests (trace w)"
    by simp
  have np: "\<not> processable E x"
    using fails by (rule fetch_fails_not_processable)
  have t1: "map row_room_id (table_rows w1) = map (\<lambda>r. Some (PStr r)) ?ok"
    using rows by (simp add: w1 table_rows_def)
  have t2: "\<forall>rec \<in> set (table_rows w1). row_room_id rec \<noteq> Some (PStr x)"
  proof
    fix rec assume "rec \<in> set (table_rows w1)"
    then have "row_room_id rec \<in> set (map row_room_id (table_rows w1))"
      by simp
    then have "row_room_id rec \<in> (\<lambda>r. Some (PStr r)) ` set ?ok"
      unfolding t1 by simp
    then obtain r where "r \<in> set ?ok" "row_room_id rec = Some (PStr r)"
      by blast
    with np show "row_room_id rec \<noteq> Some (PStr x)"
      by auto
  qed
  have t3: "log_text w1 = log_text w @ log_entries ?ok"
    using lg0 la by (simp add: w1)
  have t4: "x \<notin> set ?ok"
    using np by simp
  have t5: "detail_requests (trace w1)
      = detail_requests (trace w)
        @ concat (map (\<lambda>r. replicate (fetch_attempts E r) (DetailsRequest r)) ?rem)"
    using dr0 da by (simp add: w1)
  have t6: "log_terminated (log_text w) \<and> (\<forall>r \<in> set ?rem. log_safe r)
      \<longrightarrow> x \<notin> load_processed_ids w1
          \<and> load_processed_ids w1 = load_processed_ids w \<union> {r \<in> set ?rem. processable E r}"
  proof
    assume a: "log_terminated (log_text w) \<and> (\<forall>r \<in> set ?rem. log_safe r)"
    then have "\<forall>r \<in> set ?ok. log_safe r"
      by simp
    with a t3 have ld: "load_processed_ids w1 = load_processed_ids w \<union> set ?ok"
      by (intro load_after_entries) simp_all
    have "x \<notin> load_processed_ids w"
      using x by (simp add: remaining_ids_def)
    with ld t4 have "x \<notin> load_processed_ids w1"
      by simp
    moreover have "set ?ok = {r \<in> set ?rem. processable E r}"
      by auto
    ultimately show "x \<notin> load_processed_ids w1
        \<and> load_processed_ids w1 = load_processed_ids w \<union> {r \<in> set ?rem. processable E r}"
      using ld by simp
  qed
  from run t1 t2 t3 t4 t5 t6 show ?thesis
    by (intro exI[of _ w1] conjI)
qed


lemma sample_run_42_inputs:
  "resolved_host (sample_externals three_listings failing_42) (Some ''12345678'') \<noteq> []
   \<and> fst (get_room_ids_from_host (sample_externals three_listings failing_42)
            (resolved_host (sample_externals three_listings failing_42) (Some ''12345678''))
            (write_csv [] initial_world)) = Inr [''41'', ''42'', ''43'']
   \<and> ''42'' \<in> set (remaining_ids (sample_externals three_listings failing_42)
                     (Some ''12345678'') initial_world)
   \<and> fetch_fails (sample_externals three_listings failing_42) ''42''
   \<and> log_terminated (log_text initial_world)
   \<and> (\<forall>r \<in> set (remaining_ids (sample_externals three_listings failing_42)
                     (Some ''12345678'') initial_world). log_safe r)"
  by code_simp

lemma sample_run_42_values:
  "filter (processable (sample_externals three_listings failing_42))
     (remaining_ids (sample_externals three_listings failing_42) (Some ''12345678'') initial_world)
     = [''41'', ''43'']
   \<and> detail_requests (trace initial_world)
       @ concat (map (\<lambda>r. replicate (fetch_attempts (sample_externals three_listings failing_42) r)
                              (DetailsRequest r))
                   (remaining_ids (sample_externals three_listings failing_42)
                      (Some ''12345678'') initial_world))
     = [DetailsRequest ''41'', DetailsRequest ''42'', DetailsRequest ''42'',
        DetailsRequest ''42'', DetailsRequest ''43'']
   \<and> log_text initial_world = []"
  by code_simp

theorem failure_isolation_witness:
  "\<exists>w1. main (sample_externals three_listings failing_42) (Some ''12345678'') initial_world
          = (Completed, w1)
        \<and> map row_room_id (table_rows w1) = [Some (PStr ''41''), Some (PStr ''43'')]
        \<and> log_text w1 = log_entries [''41'', ''43'']
        \<and> detail_requests (trace w1)
            = [DetailsRequest ''41'', DetailsRequest ''42'', DetailsRequest ''42'',
               DetailsRequest ''42'', DetailsRequest ''43'']
        \<and> ''42'' \<notin> load_processed_ids w1"
proof -
  let ?E = "sample_externals three_listings failing_42"
  note h = sample_run_42_inputs
  from h have h1: "resolved_host ?E (Some ''12345678'') \<noteq> []"
    and h2: "fst (get_room_ids_from_host ?E (resolved_host ?E (Some ''12345678''))
                   (write_csv [] initial_world)) = Inr [''41'', ''42'', ''43'']"
    and h3: "''42'' \<in> set (remaining_ids ?E (Some ''12345678'') initial_world)"
    and h4: "fetch_fails ?E ''42''"
    and h5: "log_terminated (log_text initial_world)
             \<and> (\<forall>r \<in> set (remaining_ids ?E (Some ''12345678'') initial_world). log_safe r)"
    by simp_all
  from failure_isolation[OF h1 h2 h3 h4] obtain w1 where
    r: "main ?E (Some ''12345678'') initial_world = (Completed, w1)"
    and t1: "map row_room_id (table_rows w1)
        = map (\<lambda>r. Some (PStr r))
            (filter (processable ?E) (remaining_ids ?E (Some ''12345678'') initial_world))"
    and t3: "log_text w1 = log_text initial_world
        @ log_entries (filter (processable ?E) (remaining_ids ?E (Some ''12345678'') initial_world))"
    and t5: "detail_requests (trace w1)
        = detail_requests (trace initial_world)
          @ concat (map (\<lambda>r. replicate (fetch_attempts ?E r) (DetailsRequest r))
                      (remaining_ids ?E (Some ''12345678'') initial_world))"
    and t6: "log_terminated (log_text initial_world)
             \<and> (\<forall>r \<in> set (remaining_ids ?E (Some ''12345678'') initial_world). log_safe r)
        \<longrightarrow> ''42'' \<notin> load_processed_ids w1
            \<and> load_processed_ids w1
                = load_processed_ids initial_world
                  \<union> {r \<in> set (remaining_ids ?E (Some ''12345678'') initial_world).
                       processable ?E r}"
    by blast
  note v = sample_run_42_values
  have a: "map row_room_id (table_rows w1) = [Some (PStr ''41''), Some (PStr ''43'')]"
    using t1 v by simp
  have b: "log_text w1 = log_entries [''41'', ''43'']"
    using t3 v by simp
  have c: "detail_requests (trace w1)
      = [DetailsRequest ''41'', DetailsRequest ''42'', DetailsRequest ''42'',
         DetailsRequest ''42'', DetailsRequest ''43'']"
    using t5 v by simp
  have d: "''42'' \<notin> load_processed_ids w1"
    using t6 h5 by blast
  from r a b c d show ?thesis
    by (intro exI[of _ w1] conjI)
qed

text \<open>
  Without the condition on the log, a failed listing can read back as processed. With
  the log \<^verbatim>\<open>4\<close> (no line break at its end) and the listings 2 and 42, of which 42 cannot
  be fetched, the entry for 2 is appended to the open line: the log reads \<^verbatim>\<open>42\<close>, and
  listing 42 counts as processed although its fetch failed.
\<close>

theorem failed_listing_reads_back_processed:
  "fetch_fails (sample_externals two_listings failing_42) ''42''
   \<and> ''42'' \<in> set (remaining_ids (sample_externals two_listings failing_42)
                     (Some ''12345678'') log_4_world)
   \<and> fst (main (sample_externals two_listings failing_42) (Some ''12345678'') log_4_world)
       = Completed
   \<and> log_text (snd (main (sample_externals two_listings failing_42) (Some ''12345678'')
                       log_4_world)) = log_text log_4_world @ log_entries [''2'']
   \<and> ''42'' \<in> load_processed_ids
                (snd (main (sample_externals two_listings failing_42) (Some ''12345678'')
                        log_4_world))"
  by code_simp

end
